theory Spec2Isabelle
  imports Complex_Main "HOL-Library.AList" "HOL-Library.Multiset"
begin

section \<open>Python strings\<close>

text \<open>
  Text is a list of characters. The text of a file is what the Python file object hands
  out in text mode: decoded, with every line ending already translated to the line feed.
  Only characters below 256 occur in a \<^typ>\<open>char\<close>; for them \<open>is_space\<close> is
  \<^verbatim>\<open>str.isspace\<close>: the controls 9 to 13 and 28 to 31, the blank, NEL (133) and the
  no-break space (160).
\<close>

definition newline :: char where
  "newline = CHR 0x0A"

definition is_space :: "char \<Rightarrow> bool" where
  "is_space c =
     (let n = (of_char c :: nat)
      in (9 \<le> n \<and> n \<le> 13) \<or> (28 \<le> n \<and> n \<le> 32) \<or> n = 133 \<or> n = 160)"

text \<open>\<^verbatim>\<open>s.strip()\<close>: whitespace removed at both ends.\<close>

definition strip :: "string \<Rightarrow> string" where
  "strip s = rev (dropWhile is_space (rev (dropWhile is_space s)))"

text \<open>\<^verbatim>\<open>s.startswith(p)\<close>.\<close>

definition startswith :: "string \<Rightarrow> string \<Rightarrow> bool" where
  "startswith s p = (take (length p) s = p)"

text \<open>\<^verbatim>\<open>s.split()\<close>: the maximal runs of non-whitespace characters, in order.\<close>

function split_ws :: "string \<Rightarrow> string list" where
  "split_ws [] = []"
| "split_ws (c # cs) =
     (if is_space c then split_ws cs
      else takeWhile (\<lambda>x. \<not> is_space x) (c # cs) # split_ws (dropWhile (\<lambda>x. \<not> is_space x) cs))"
  by pat_completeness auto
termination
  by (relation "measure length") (auto simp: le_imp_less_Suc length_dropWhile_le)

text \<open>
  \<^verbatim>\<open>s.split(sep)\<close> for a non-empty separator: cut at every occurrence found scanning
  from the left, occurrences not overlapping; the empty string gives one empty piece.
\<close>

fun split_sep :: "string \<Rightarrow> string \<Rightarrow> string list" where
  "split_sep sep [] = [[]]"
| "split_sep sep (c # cs) =
     (if sep \<noteq> [] \<and> take (length sep) (c # cs) = sep
      then [] # split_sep sep (drop (length sep - 1) cs)
      else (case split_sep sep cs of
              [] \<Rightarrow> [[c]]
            | w # ws \<Rightarrow> (c # w) # ws))"

text \<open>
  \<^verbatim>\<open>for line in f\<close>: the lines of the text, each with its line feed; a last line
  without one is a line too, and the empty text has no line.
\<close>

fun file_lines :: "string \<Rightarrow> string list" where
  "file_lines [] = []"
| "file_lines (c # cs) =
     (if c = newline then [c] # file_lines cs
      else (case file_lines cs of
              [] \<Rightarrow> [[c]]
            | l # ls \<Rightarrow> (c # l) # ls))"

text \<open>\<^verbatim>\<open>str(n)\<close> for a non-negative integer, and for any integer.\<close>

definition digit_char :: "nat \<Rightarrow> char" where
  "digit_char d = char_of (48 + d)"

function str_nat :: "nat \<Rightarrow> string" where
  "str_nat n = (if n < 10 then [digit_char n] else str_nat (n div 10) @ [digit_char (n mod 10)])"
  by pat_completeness auto
termination
  by (relation "measure id") auto

declare str_nat.simps [simp del]

definition str_int :: "int \<Rightarrow> string" where
  "str_int i = (if i < 0 then CHR ''-'' # str_nat (nat (- i)) else str_nat (nat i))"

section \<open>Python dictionaries\<close>

text \<open>
  A dictionary is an association list in insertion order with distinct keys:
  \<^verbatim>\<open>d[k] = v\<close> is \<^const>\<open>AList.update\<close> (the value replaced in place, or the pair added
  at the end), \<^verbatim>\<open>k in d\<close> is \<open>map_of d k \<noteq> None\<close>, and \<^verbatim>\<open>d[k]\<close> raises
  \<^verbatim>\<open>KeyError\<close> on a missing key.
\<close>

datatype py_error =
    KeyError string
  | ValueError string
  | FileNotFoundError string
  | FileExistsError string
  | IsADirectoryError string
  | OtherError string
  | Exception string

text \<open>
  \<^verbatim>\<open>str(e)\<close>: the message of an exception. A \<^verbatim>\<open>KeyError\<close> shows its key quoted; the
  errors of the operating system show the path after their text.
\<close>

fun str_error :: "py_error \<Rightarrow> string" where
  "str_error (KeyError k) = [CHR 0x27] @ k @ [CHR 0x27]"
| "str_error (ValueError msg) = msg"
| "str_error (FileNotFoundError p) =
     ''[Errno 2] No such file or directory: '' @ [CHR 0x27] @ p @ [CHR 0x27]"
| "str_error (FileExistsError p) = ''[Errno 17] File exists: '' @ [CHR 0x27] @ p @ [CHR 0x27]"
| "str_error (IsADirectoryError p) = ''[Errno 21] Is a directory: '' @ [CHR 0x27] @ p @ [CHR 0x27]"
| "str_error (OtherError msg) = msg"
| "str_error (Exception msg) = msg"

definition dict_get :: "('k \<times> 'v) list \<Rightarrow> 'k \<Rightarrow> string \<Rightarrow> py_error + 'v" where
  "dict_get d k shown = (case map_of d k of None \<Rightarrow> Inl (KeyError shown) | Some v \<Rightarrow> Inr v)"

text \<open>\<^verbatim>\<open>Counter\<close>: a missing key counts as 0; \<^verbatim>\<open>c[k] += 1\<close>.\<close>

definition counter_get :: "('k \<times> nat) list \<Rightarrow> 'k \<Rightarrow> nat" where
  "counter_get c k = (case map_of c k of None \<Rightarrow> 0 | Some n \<Rightarrow> n)"

definition counter_incr :: "('k \<times> nat) list \<Rightarrow> 'k \<Rightarrow> ('k \<times> nat) list" where
  "counter_incr c k = AList.update k (counter_get c k + 1) c"

section \<open>The converter: \<^verbatim>\<open>conll_to_json\<close>, lines 69 to 102\<close>

record sentence =
  sid :: string
  tokens :: "string list"
  ner_tags :: "int list"

record conv_state =
  data :: "sentence list"
  current_sentence :: sentence
  sentence_id :: nat
  tag_counter :: "(string \<times> nat) list"
  tag_dict :: "(string \<times> int) list"
  custom_mapping :: "(int \<times> string) list"
  max_tag_id :: int
  new_entities :: "string set"

definition new_sentence :: "nat \<Rightarrow> sentence" where
  "new_sentence n = \<lparr>sid = str_nat n, tokens = [], ner_tags = []\<rparr>"

text \<open>\<^verbatim>\<open>{v: k for k, v in custom_mapping.items()}\<close>: a later pair wins a shared value.\<close>

definition invert :: "(int \<times> string) list \<Rightarrow> (string \<times> int) list" where
  "invert m = fold (\<lambda>(k, v) d. AList.update v k d) m []"

text \<open>\<^verbatim>\<open>max(custom_mapping.keys()) if custom_mapping else -1\<close>.\<close>

definition initial_max_tag_id :: "(int \<times> string) list \<Rightarrow> int" where
  "initial_max_tag_id m = (case map fst m of [] \<Rightarrow> - 1 | k # ks \<Rightarrow> fold max ks k)"

definition init_state :: "(int \<times> string) list \<Rightarrow> conv_state" where
  "init_state m =
     \<lparr>data = [], current_sentence = new_sentence 0, sentence_id = 0, tag_counter = [],
      tag_dict = invert m, custom_mapping = m, max_tag_id = initial_max_tag_id m,
      new_entities = {}\<rparr>"

text \<open>A sentence boundary (lines 81 to 84): the current sentence, when it has a token, is kept.\<close>

definition end_sentence :: "conv_state \<Rightarrow> conv_state" where
  "end_sentence s =
     (if tokens (current_sentence s) \<noteq> []
      then s\<lparr>data := data s @ [current_sentence s],
             sentence_id := sentence_id s + 1,
             current_sentence := new_sentence (sentence_id s + 1)\<rparr>
      else s)"

text \<open>
  A token with its tag (lines 89 to 99). The token is appended first; an unregistered tag
  is registered under \<open>max_tag_id + 1\<close> when \<open>ignore_mismatch\<close> is set and replaced by
  \<open>O\<close> otherwise; the lookup of the tag then gives the id, and the counter is
  incremented at the tag as it is by then.
\<close>

definition add_token :: "bool \<Rightarrow> conv_state \<Rightarrow> string \<Rightarrow> string \<Rightarrow> py_error + conv_state" where
  "add_token ignore_mismatch s token ner_tag =
     (let s1 = s\<lparr>current_sentence :=
                  (current_sentence s)\<lparr>tokens := tokens (current_sentence s) @ [token]\<rparr>\<rparr>;
          unregistered = (map_of (tag_dict s1) ner_tag = None);
          s2 = (if unregistered \<and> ignore_mismatch
                then s1\<lparr>max_tag_id := max_tag_id s1 + 1,
                        tag_dict := AList.update ner_tag (max_tag_id s1 + 1) (tag_dict s1),
                        custom_mapping :=
                          AList.update (max_tag_id s1 + 1) ner_tag (custom_mapping s1),
                        new_entities := insert ner_tag (new_entities s1)\<rparr>
                else s1);
          ner_tag' = (if unregistered \<and> \<not> ignore_mismatch then ''O'' else ner_tag)
      in (case dict_get (tag_dict s2) ner_tag' ner_tag' of
            Inl e \<Rightarrow> Inl e
          | Inr i \<Rightarrow>
              Inr (s2\<lparr>current_sentence :=
                        (current_sentence s2)\<lparr>ner_tags := ner_tags (current_sentence s2) @ [i]\<rparr>,
                      tag_counter := counter_incr (tag_counter s2) ner_tag'\<rparr>)))"

text \<open>The body of the loop over the lines (lines 79 to 99).\<close>

definition process_line :: "bool \<Rightarrow> conv_state \<Rightarrow> string \<Rightarrow> py_error + conv_state" where
  "process_line ignore_mismatch s raw =
     (let line = strip raw
      in if startswith line ''-DOCSTART-'' \<or> line = []
         then Inr (end_sentence s)
         else (let parts = split_ws line
               in if length parts \<ge> 4
                  then add_token ignore_mismatch s (parts ! 0) (parts ! 3)
                  else Inr s))"

text \<open>The loop: an exception ends it.\<close>

fun process_lines :: "bool \<Rightarrow> conv_state \<Rightarrow> string list \<Rightarrow> py_error + conv_state" where
  "process_lines ignore_mismatch s [] = Inr s"
| "process_lines ignore_mismatch s (l # ls) =
     (case process_line ignore_mismatch s l of
        Inl e \<Rightarrow> Inl e
      | Inr s' \<Rightarrow> process_lines ignore_mismatch s' ls)"

text \<open>After the loop (lines 101 and 102): the last sentence, when it has a token.\<close>

definition flush_last :: "conv_state \<Rightarrow> conv_state" where
  "flush_last s =
     (if tokens (current_sentence s) \<noteq> [] then s\<lparr>data := data s @ [current_sentence s]\<rparr> else s)"

text \<open>Lines 69 to 102 on the text of the input file, from the mapping in use.\<close>

definition convert :: "bool \<Rightarrow> (int \<times> string) list \<Rightarrow> string \<Rightarrow> py_error + conv_state" where
  "convert ignore_mismatch m text =
     (case process_lines ignore_mismatch (init_state m) (file_lines text) of
        Inl e \<Rightarrow> Inl e
      | Inr s \<Rightarrow> Inr (flush_last s))"

section \<open>Files, directories and the random source\<close>

text \<open>
  The world the functions act on: the directories that exist, the regular files with
  their text, and the record of the effects so far, in order. Paths are compared as they
  are written; permissions, links and devices are outside the model.
\<close>

datatype event = Makedirs string | ReadFile string | Shuffle | WriteFile string

record world =
  dirs :: "string list"
  files :: "(string \<times> string) list"
  events :: "event list"

text \<open>\<^verbatim>\<open>os.path.join(a, b)\<close> for two components and \<^verbatim>\<open>os.path.dirname(p)\<close>.\<close>

definition path_join :: "string \<Rightarrow> string \<Rightarrow> string" where
  "path_join a b =
     (if startswith b ''/'' then b
      else if a = [] \<or> last a = CHR ''/'' then a @ b
      else a @ ''/'' @ b)"

definition dirname :: "string \<Rightarrow> string" where
  "dirname p =
     (let head = rev (dropWhile (\<lambda>c. c \<noteq> CHR ''/'') (rev p));
          cut = rev (dropWhile (\<lambda>c. c = CHR ''/'') (rev head))
      in if cut = [] then head else cut)"

text \<open>The directories on the way to a path, the path itself last.\<close>

function ancestors :: "string \<Rightarrow> string list" where
  "ancestors p = (if dirname p = [] \<or> dirname p = p \<or> length p \<le> length (dirname p)
                  then [p] else ancestors (dirname p) @ [p])"
  by pat_completeness auto
termination
  by (relation "measure length") auto

declare ancestors.simps [simp del]

text \<open>
  \<^verbatim>\<open>os.makedirs(p, exist_ok=True)\<close>: the directory and those on the way to it exist
  afterwards; it fails on the empty path and where a regular file is in the way.
\<close>

definition makedirs :: "world \<Rightarrow> string \<Rightarrow> world \<times> (py_error + unit)" where
  "makedirs w p =
     (let w1 = w\<lparr>events := events w @ [Makedirs p]\<rparr>
      in if p = [] then (w1, Inl (FileNotFoundError p))
         else if \<exists>a \<in> set (ancestors p). map_of (files w) a \<noteq> None
         then (w1, Inl (FileExistsError p))
         else (w1\<lparr>dirs := List.union (dirs w) (ancestors p)\<rparr>, Inr ()))"

text \<open>\<^verbatim>\<open>open(p, 'r').read()\<close> and \<^verbatim>\<open>open(p, 'w').write(text)\<close>.\<close>

definition read_file :: "world \<Rightarrow> string \<Rightarrow> world \<times> (py_error + string)" where
  "read_file w p =
     (let w1 = w\<lparr>events := events w @ [ReadFile p]\<rparr>
      in case map_of (files w) p of
           Some text \<Rightarrow> (w1, Inr text)
         | None \<Rightarrow>
             (w1, Inl (if p \<in> set (dirs w) then IsADirectoryError p else FileNotFoundError p)))"

definition write_file :: "world \<Rightarrow> string \<Rightarrow> string \<Rightarrow> world \<times> (py_error + unit)" where
  "write_file w p text =
     (let w1 = w\<lparr>events := events w @ [WriteFile p]\<rparr>
      in if p \<in> set (dirs w) then (w1, Inl (IsADirectoryError p))
         else if dirname p \<noteq> [] \<and> dirname p \<notin> set (dirs w)
         then (w1, Inl (FileNotFoundError p))
         else (w1\<lparr>files := AList.update p text (files w)\<rparr>, Inr ()))"

text \<open>
  \<^verbatim>\<open>random.shuffle(x)\<close>, as the standard library has it: for \<open>i\<close> from the last index
  down to 1, \<open>x[i]\<close> and \<open>x[j]\<close> are exchanged for a random \<open>j\<close> with \<open>0 \<le> j \<le> i\<close>.
  The random source is a parameter: \<open>rnd i\<close> is the number drawn at index \<open>i\<close>,
  reduced into the range.
\<close>

fun shuffle_from :: "(nat \<Rightarrow> nat) \<Rightarrow> nat \<Rightarrow> 'a list \<Rightarrow> 'a list" where
  "shuffle_from rnd 0 xs = xs"
| "shuffle_from rnd (Suc i) xs =
     (let j = rnd (Suc i) mod (Suc i + 1)
      in shuffle_from rnd i (xs[Suc i := xs ! j, j := xs ! Suc i]))"

definition shuffle :: "(nat \<Rightarrow> nat) \<Rightarrow> 'a list \<Rightarrow> 'a list" where
  "shuffle rnd xs = shuffle_from rnd (length xs - 1) xs"

section \<open>The splitter: \<^verbatim>\<open>split_conll\<close>\<close>

text \<open>
  A ratio is a rational number: every float that is a number is one, and the rounding of
  the float product and sum is not modelled. \<^verbatim>\<open>int(x)\<close> truncates towards zero.
\<close>

definition py_int :: "rat \<Rightarrow> int" where
  "py_int x = (if 0 \<le> x then \<lfloor>x\<rfloor> else \<lceil>x\<rceil>)"

text \<open>
  The slice \<^verbatim>\<open>xs[lo:hi]\<close>: a negative bound counts from the end, both bounds are
  clipped to the list, and a missing bound is the end on its side.
\<close>

definition slice_bound :: "nat \<Rightarrow> int \<Rightarrow> nat" where
  "slice_bound n i = (if i < 0 then nat (max 0 (int n + i)) else min (nat i) n)"

definition slice :: "'a list \<Rightarrow> int option \<Rightarrow> int option \<Rightarrow> 'a list" where
  "slice xs lo hi =
     (let n = length xs;
          l = (case lo of None \<Rightarrow> 0 | Some i \<Rightarrow> slice_bound n i);
          h = (case hi of None \<Rightarrow> n | Some i \<Rightarrow> slice_bound n i)
      in take (h - l) (drop l xs))"

text \<open>\<^verbatim>\<open>sep.join(xs)\<close>.\<close>

fun join :: "string \<Rightarrow> string list \<Rightarrow> string" where
  "join sep [] = []"
| "join sep [x] = x"
| "join sep (x # y # ys) = x @ sep @ join sep (y # ys)"

text \<open>Lines 134 to 139: the blocks of the text, and the marker block when it comes first.\<close>

definition read_blocks :: "string \<Rightarrow> string option \<times> string list" where
  "read_blocks text =
     (let blocks = split_sep [newline, newline] (strip text)
      in if startswith (hd blocks) ''-DOCSTART-'' then (Some (hd blocks), tl blocks)
         else (None, blocks))"

text \<open>Lines 143 to 150: the three groups of the shuffled blocks.\<close>

definition split_data :: "rat \<times> rat \<times> rat \<Rightarrow> 'a list \<Rightarrow> 'a list \<times> 'a list \<times> 'a list" where
  "split_data ratio shuffled =
     (case ratio of (r0, r1, r2) \<Rightarrow>
        (let total_length = length shuffled;
             train_end_idx = py_int (of_nat total_length * r0);
             val_end_idx = train_end_idx + py_int (of_nat total_length * r1);
             train_data = (if r0 > 0 then slice shuffled None (Some train_end_idx) else []);
             val_data =
               (if r1 > 0 then slice shuffled (Some train_end_idx) (Some val_end_idx) else []);
             test_data = (if r2 > 0 then slice shuffled (Some val_end_idx) None else [])
         in (train_data, val_data, test_data)))"

text \<open>Lines 153 to 156: the marker goes back in front of every group that is not empty.\<close>

definition add_doc_start :: "string option \<Rightarrow> string list \<Rightarrow> string list" where
  "add_doc_start doc_start split =
     (case doc_start of
        None \<Rightarrow> split
      | Some d \<Rightarrow> (if split \<noteq> [] then d # split else split))"

text \<open>
  Lines 160 to 168, for one group: a group that is not empty is written
  (\<^verbatim>\<open>write_to_file\<close>) and entered in the list of the files created.
\<close>

definition write_split ::
  "world \<Rightarrow> string \<Rightarrow> string \<Rightarrow> string list \<Rightarrow> (string \<times> nat) list \<Rightarrow>
   world \<times> (py_error + (string \<times> nat) list)" where
  "write_split w output_dir name split files_created =
     (if split \<noteq> []
      then (case write_file w (path_join output_dir name) (join [newline, newline] split @ [newline]) of
              (w1, Inl e) \<Rightarrow> (w1, Inl e)
            | (w1, Inr _) \<Rightarrow> (w1, Inr (files_created @ [(name, length split)])))
      else (w, Inr files_created))"

text \<open>Lines 159 to 170: the three groups in their order, and the list of the files created.\<close>

definition write_splits ::
  "world \<Rightarrow> string \<Rightarrow> string list \<Rightarrow> string list \<Rightarrow> string list \<Rightarrow>
   world \<times> (py_error + (string \<times> nat) list)" where
  "write_splits w output_dir train_data val_data test_data =
     (case write_split w output_dir ''train.conll'' train_data [] of
        (w1, Inl e) \<Rightarrow> (w1, Inl e)
      | (w1, Inr fc1) \<Rightarrow>
          (case write_split w1 output_dir ''val.conll'' val_data fc1 of
             (w2, Inl e) \<Rightarrow> (w2, Inl e)
           | (w2, Inr fc2) \<Rightarrow> write_split w2 output_dir ''test.conll'' test_data fc2))"

text \<open>The body of the \<^verbatim>\<open>try\<close> (lines 128 to 170).\<close>

definition split_conll_body ::
  "(nat \<Rightarrow> nat) \<Rightarrow> world \<Rightarrow> string \<Rightarrow> string \<Rightarrow> rat \<times> rat \<times> rat \<Rightarrow>
   world \<times> (py_error + (string \<times> nat) list)" where
  "split_conll_body rnd w conll_file output_dir ratio =
     (case makedirs w output_dir of
        (w1, Inl e) \<Rightarrow> (w1, Inl e)
      | (w1, Inr _) \<Rightarrow>
          (case ratio of (r0, r1, r2) \<Rightarrow>
             if r0 + r1 + r2 > 1
             then (w1, Inl (ValueError ''The sum of the split ratios exceeds 1.0''))
             else (case read_file w1 conll_file of
                     (w2, Inl e) \<Rightarrow> (w2, Inl e)
                   | (w2, Inr text) \<Rightarrow>
                       (case read_blocks text of (doc_start, blocks) \<Rightarrow>
                          (let shuffled = shuffle rnd blocks;
                               w3 = w2\<lparr>events := events w2 @ [Shuffle]\<rparr>
                           in case split_data ratio shuffled of (train_data, val_data, test_data) \<Rightarrow>
                                write_splits w3 output_dir
                                  (add_doc_start doc_start train_data)
                                  (add_doc_start doc_start val_data)
                                  (add_doc_start doc_start test_data))))))"

text \<open>
  \<^verbatim>\<open>split_conll\<close>: every exception of the body is raised again as a plain
  \<^verbatim>\<open>Exception\<close> with the message in front of the original one.
\<close>

definition split_conll ::
  "(nat \<Rightarrow> nat) \<Rightarrow> world \<Rightarrow> string \<Rightarrow> string \<Rightarrow> rat \<times> rat \<times> rat \<Rightarrow>
   world \<times> (py_error + (string \<times> nat) list)" where
  "split_conll rnd w conll_file output_dir ratio =
     (case split_conll_body rnd w conll_file output_dir ratio of
        (w1, Inl e) \<Rightarrow> (w1, Inl (Exception (''Error during CoNLL splitting: '' @ str_error e)))
      | (w1, Inr files_created) \<Rightarrow> (w1, Inr files_created))"

section \<open>The converter as a whole: \<^verbatim>\<open>conll_to_json\<close>\<close>

text \<open>
  Dictionaries that are passed around live in a store: a mapping object is the index of
  its dictionary there, and a change made through one reference is seen through every
  other.
\<close>

type_synonym heap = "(int \<times> string) list list"

record summary =
  sentences_processed :: nat
  unique_tags :: nat
  tag_counts :: "(string \<times> nat) list"
  new_entity_list :: "string set"

text \<open>The text of the class-mapping file (lines 111 to 115), the pairs sorted by id.\<close>

definition class_mapping_text :: "(int \<times> string) list \<Rightarrow> string" where
  "class_mapping_text m =
     ''tag_mapping = {'' @ [newline] @
     concat (map (\<lambda>(idx, tag). ''    '' @ str_int idx @ '': '' @ [CHR 0x27] @ tag @ [CHR 0x27] @
                                  '','' @ [newline])
                 (sort_key fst m)) @
     ''}'' @ [newline]"

text \<open>
  Lines 62 to 67: the dictionary the conversion works on. A mapping object that is passed
  in is used as it is; without one a new dictionary is made, from the latest model
  configuration when there is one and empty otherwise. \<open>model_config\<close> is what lines 42
  to 58 give on the \<^verbatim>\<open>./models\<close> directory, which no function here writes: an
  error of the loader, no configuration, or the mapping loaded.
\<close>

definition mapping_in_use ::
  "(py_error + (int \<times> string) list option) \<Rightarrow> heap \<Rightarrow> nat option \<Rightarrow> py_error + heap \<times> nat" where
  "mapping_in_use model_config h mapping_ref =
     (case mapping_ref of
        Some a \<Rightarrow> Inr (h, a)
      | None \<Rightarrow>
          (case model_config of
             Inl e \<Rightarrow> Inl e
           | Inr (Some m) \<Rightarrow> Inr (h @ [m], length h)
           | Inr None \<Rightarrow> Inr (h @ [[]], length h)))"

text \<open>
  \<^verbatim>\<open>conll_to_json\<close>. \<open>json_dumps\<close> is the serialiser of the standard library. The
  registrations go into the dictionary in the store, so they stay after the call; a
  lookup error arises only with \<open>ignore_mismatch\<close> off, when nothing is registered.
\<close>

definition conll_to_json ::
  "(sentence \<Rightarrow> string) \<Rightarrow> (py_error + (int \<times> string) list option) \<Rightarrow> world \<times> heap \<Rightarrow>
   string \<Rightarrow> string \<Rightarrow> string \<Rightarrow> nat option \<Rightarrow> bool \<Rightarrow> (world \<times> heap) \<times> (py_error + summary)" where
  "conll_to_json json_dumps model_config wh input_file output_file class_mapping_file
     mapping_ref ignore_mismatch =
     (case wh of (w, h) \<Rightarrow>
        (case mapping_in_use model_config h mapping_ref of
           Inl e \<Rightarrow> ((w, h), Inl e)
         | Inr (h1, a) \<Rightarrow>
             (case read_file w input_file of
                (w1, Inl e) \<Rightarrow> ((w1, h1), Inl e)
              | (w1, Inr content) \<Rightarrow>
                  (case convert ignore_mismatch (h1 ! a) content of
                     Inl e \<Rightarrow> ((w1, h1), Inl e)
                   | Inr s \<Rightarrow>
                       (let h2 = h1[a := custom_mapping s]
                        in case write_file w1 output_file
                                  (concat (map (\<lambda>item. json_dumps item @ [newline]) (data s))) of
                             (w2, Inl e) \<Rightarrow> ((w2, h2), Inl e)
                           | (w2, Inr _) \<Rightarrow>
                               (case write_file w2 class_mapping_file
                                       (class_mapping_text (custom_mapping s)) of
                                  (w3, Inl e) \<Rightarrow> ((w3, h2), Inl e)
                                | (w3, Inr _) \<Rightarrow>
                                    ((w3, h2),
                                     Inr \<lparr>sentences_processed = length (data s),
                                          unique_tags = length (custom_mapping s),
                                          tag_counts = tag_counter s,
                                          new_entity_list = new_entities s\<rparr>)))))))"

section \<open>The endpoint: \<^verbatim>\<open>process_conll\<close>\<close>

text \<open>\<^verbatim>\<open>s.replace(old, new)\<close> for a non-empty \<open>old\<close>.\<close>

fun str_replace :: "string \<Rightarrow> string \<Rightarrow> string \<Rightarrow> string" where
  "str_replace old new [] = []"
| "str_replace old new (c # cs) =
     (if old \<noteq> [] \<and> take (length old) (c # cs) = old
      then new @ str_replace old new (drop (length old - 1) cs)
      else c # str_replace old new cs)"

text \<open>
  Lines 229 to 241: every split file is converted, in the order of the list, with the one
  mapping object of the request and the one class-mapping file.
\<close>

fun convert_splits ::
  "(sentence \<Rightarrow> string) \<Rightarrow> (py_error + (int \<times> string) list option) \<Rightarrow> world \<times> heap \<Rightarrow>
   string \<Rightarrow> string \<Rightarrow> nat option \<Rightarrow> (string \<times> nat) list \<Rightarrow> (string \<times> summary) list \<Rightarrow>
   (world \<times> heap) \<times> (py_error + (string \<times> summary) list)" where
  "convert_splits json_dumps model_config wh output_dir conll_dir custom_map [] json_results =
     (wh, Inr json_results)"
| "convert_splits json_dumps model_config wh output_dir conll_dir custom_map
     ((split_name, n) # rest) json_results =
     (case conll_to_json json_dumps model_config wh
             (path_join conll_dir split_name)
             (path_join output_dir (str_replace ''.conll'' ''.json'' split_name))
             (path_join output_dir ''class_mapping.py'')
             custom_map True of
        (wh1, Inl e) \<Rightarrow> (wh1, Inl e)
      | (wh1, Inr conversion_result) \<Rightarrow>
          convert_splits json_dumps model_config wh1 output_dir conll_dir custom_map rest
            (AList.update split_name conversion_result json_results))"

text \<open>
  What the endpoint takes from outside the repository: the parsers of the standard
  library (\<^verbatim>\<open>float\<close>, \<^verbatim>\<open>int\<close> and \<^verbatim>\<open>json.loads\<close>, each with its failure), the
  serialiser, \<^verbatim>\<open>secure_filename\<close>, the date of the day as \<^verbatim>\<open>strftime\<close> prints it, the
  model configuration and the random source.
\<close>

datatype json_doc = JsonInvalid | JsonNotObject | JsonObject "(string \<times> string) list"

record env =
  float_of :: "string \<Rightarrow> rat option"
  int_of :: "string \<Rightarrow> int option"
  json_loads :: "string \<Rightarrow> json_doc"
  json_dumps_of :: "sentence \<Rightarrow> string"
  secure_filename :: "string \<Rightarrow> string"
  today :: string
  model_config_of :: "py_error + (int \<times> string) list option"
  draws :: "nat \<Rightarrow> nat"

text \<open>
  The form fields of a request, and the uploaded file with its name and text; a field
  that was not sent is \<open>None\<close>.
\<close>

record request =
  folder_name :: "string option"
  ratios_field :: "string option"
  custom_map_field :: "string option"
  upload :: "(string \<times> string) option"

datatype response =
    ErrorResponse nat string
  | Completed string "(string \<times> nat) list" "(string \<times> summary) list"

definition status_of :: "response \<Rightarrow> nat" where
  "status_of r = (case r of ErrorResponse code msg \<Rightarrow> code | Completed d fc js \<Rightarrow> 200)"

text \<open>
  A step of the handler raises, returns a response at once, or goes on with a value.
\<close>

datatype 'a step = Raise py_error | Return response | Go 'a

text \<open>
  Lines 184 to 189: the ratios. Every component is parsed before the count is looked at,
  so a component that is no number raises before the count can be refused.
\<close>

definition parse_ratios :: "env \<Rightarrow> string option \<Rightarrow> (rat \<times> rat \<times> rat) step" where
  "parse_ratios e field =
     (if field = None \<or> field = Some []
      then Go (7 / 10, 3 / 20, 3 / 20)
      else (let parts = split_sep '','' (the field);
                parsed = map (float_of e) parts
            in if None \<in> set parsed
               then Raise (ValueError ''could not convert string to float'')
               else (case map the parsed of
                       [r0, r1, r2] \<Rightarrow> Go (r0, r1, r2)
                     | _ \<Rightarrow> Return (ErrorResponse 400 ''Ratios must be three comma-separated numbers''))))"

text \<open>
  Lines 192 to 198: the explicit mapping. Only a text that is no JSON is answered at
  once; a JSON value that is no object, or a key that is no integer, raises. The mapping
  becomes a new dictionary in the store, a later pair winning a repeated key.
\<close>

definition parse_custom_map :: "env \<Rightarrow> heap \<Rightarrow> string option \<Rightarrow> (heap \<times> nat option) step" where
  "parse_custom_map e h field =
     (if field = None \<or> field = Some []
      then Go (h, None)
      else (case json_loads e (the field) of
              JsonInvalid \<Rightarrow> Return (ErrorResponse 400 ''Invalid custom_map JSON format'')
            | JsonNotObject \<Rightarrow> Raise (OtherError ''object has no attribute items'')
            | JsonObject items \<Rightarrow>
                (if None \<in> set (map (\<lambda>(k, v). int_of e k) items)
                 then Raise (ValueError ''invalid literal for int() with base 10'')
                 else Go (h @ [fold (\<lambda>(k, v) d. AList.update (the (int_of e k)) v d) items []],
                          Some (length h)))))"

text \<open>\<^verbatim>\<open>os.listdir(p)\<close>: the names of what lies directly in a directory.\<close>

definition listdir :: "world \<Rightarrow> string \<Rightarrow> string list" where
  "listdir w p =
     (let pre = (if p = [] \<or> last p = CHR ''/'' then p else p @ ''/'')
      in remdups
           (map (drop (length pre))
              (filter (\<lambda>q. take (length pre) q = pre \<and> length pre < length q \<and>
                            CHR ''/'' \<notin> set (drop (length pre) q))
                 (dirs w @ map fst (files w)))))"

text \<open>\<^verbatim>\<open>s.zfill(n)\<close>: zeros in front, after a sign, up to the width.\<close>

definition zfill :: "nat \<Rightarrow> string \<Rightarrow> string" where
  "zfill n s =
     (case s of
        c # cs \<Rightarrow>
          (if c = CHR ''-'' \<or> c = CHR ''+''
           then c # replicate (n - length s) CHR ''0'' @ cs
           else replicate (n - length s) CHR ''0'' @ s)
      | [] \<Rightarrow> replicate n CHR ''0'')"

text \<open>\<^verbatim>\<open>create_data_directory\<close> (lines 12 to 35).\<close>

definition create_data_directory :: "env \<Rightarrow> world \<Rightarrow> string option \<Rightarrow> world \<times> (py_error + string)" where
  "create_data_directory e w custom_name =
     (case makedirs w ''./data'' of
        (w1, Inl err) \<Rightarrow> (w1, Inl err)
      | (w1, Inr _) \<Rightarrow>
          (let base_name = (if custom_name = None \<or> custom_name = Some [] then today e
                            else secure_filename e (the custom_name));
               existing_dirs = filter (\<lambda>d. startswith d base_name) (listdir w1 ''./data'');
               numbers = map (\<lambda>d. int_of e (last (split_sep ''-'' d))) existing_dirs
           in if None \<in> set numbers
              then (w1, Inl (ValueError ''invalid literal for int() with base 10''))
              else (let seq_num = (case map the numbers of
                                     [] \<Rightarrow> ''0001''
                                   | k # ks \<Rightarrow> zfill 4 (str_int (fold max ks k + 1)));
                        full_path = path_join ''./data'' (base_name @ ''-'' @ seq_num)
                    in case makedirs w1 full_path of
                         (w2, Inl err) \<Rightarrow> (w2, Inl err)
                       | (w2, Inr _) \<Rightarrow> (w2, Inr full_path))))"

text \<open>
  Lines 200 to 252, after the two fields are parsed: the directories, the uploaded file,
  the split and the conversions.
\<close>

definition run_job ::
  "env \<Rightarrow> world \<times> heap \<Rightarrow> request \<Rightarrow> rat \<times> rat \<times> rat \<Rightarrow> nat option \<Rightarrow> (world \<times> heap) \<times> response step" where
  "run_job e wh req ratios custom_map =
     (case wh of (w, h) \<Rightarrow>
        (case create_data_directory e w (folder_name req) of
           (w1, Inl err) \<Rightarrow> ((w1, h), Raise err)
         | (w1, Inr output_dir) \<Rightarrow>
             (let conll_dir = path_join output_dir ''conll_files''
              in case makedirs w1 conll_dir of
                   (w2, Inl err) \<Rightarrow> ((w2, h), Raise err)
                 | (w2, Inr _) \<Rightarrow>
                     (case upload req of
                        None \<Rightarrow> ((w2, h), Raise (KeyError ''file''))
                      | Some (filename, content) \<Rightarrow>
                          if filename = []
                          then ((w2, h), Return (ErrorResponse 400 ''No file uploaded''))
                          else (let input_path = path_join conll_dir (secure_filename e filename)
                                in case write_file w2 input_path content of
                                     (w3, Inl err) \<Rightarrow> ((w3, h), Raise err)
                                   | (w3, Inr _) \<Rightarrow>
                                       (case split_conll (draws e) w3 input_path conll_dir ratios of
                                          (w4, Inl err) \<Rightarrow> ((w4, h), Raise err)
                                        | (w4, Inr split_results) \<Rightarrow>
                                            (case convert_splits (json_dumps_of e) (model_config_of e)
                                                    (w4, h) output_dir conll_dir custom_map
                                                    split_results [] of
                                               (wh5, Inl err) \<Rightarrow> (wh5, Raise err)
                                             | (wh5, Inr json_results) \<Rightarrow>
                                                 (wh5, Go (Completed output_dir split_results
                                                             json_results)))))))))"

text \<open>
  \<^verbatim>\<open>process_conll\<close>: the body of the \<^verbatim>\<open>try\<close>, and every exception answered with the
  status 500 (lines 254 and 255).
\<close>

definition process_conll :: "env \<Rightarrow> world \<times> heap \<Rightarrow> request \<Rightarrow> (world \<times> heap) \<times> response" where
  "process_conll e wh req =
     (case parse_ratios e (ratios_field req) of
        Raise err \<Rightarrow> (wh, ErrorResponse 500 (str_error err))
      | Return r \<Rightarrow> (wh, r)
      | Go ratios \<Rightarrow>
          (case parse_custom_map e (snd wh) (custom_map_field req) of
             Raise err \<Rightarrow> (wh, ErrorResponse 500 (str_error err))
           | Return r \<Rightarrow> (wh, r)
           | Go (h1, custom_map) \<Rightarrow>
               (case run_job e (fst wh, h1) req ratios custom_map of
                  (wh1, Raise err) \<Rightarrow> (wh1, ErrorResponse 500 (str_error err))
                | (wh1, Return r) \<Rightarrow> (wh1, r)
                | (wh1, Go r) \<Rightarrow> (wh1, r))))"

section \<open>What a corpus holds\<close>

text \<open>
  The reading of one line, as lines 79 to 88 take it: a boundary line, or the token and
  the tag of a line with at least four fields, or nothing for a shorter line.
\<close>

definition is_boundary :: "string \<Rightarrow> bool" where
  "is_boundary raw = (startswith (strip raw) ''-DOCSTART-'' \<or> strip raw = [])"

definition line_pair :: "string \<Rightarrow> (string \<times> string) option" where
  "line_pair raw =
     (if is_boundary raw then None
      else (let parts = split_ws (strip raw)
            in if length parts \<ge> 4 then Some (parts ! 0, parts ! 3) else None))"

text \<open>The tags of a corpus in the order of its lines.\<close>

definition corpus_tags :: "string list \<Rightarrow> string list" where
  "corpus_tags ls = map snd (List.map_filter line_pair ls)"



text \<open>
  The tag a token ends up with: its own when it is registered or dynamic registration is
  on, the fallback \<open>O\<close> otherwise.
\<close>

definition resolved_tag :: "bool \<Rightarrow> (string \<times> int) list \<Rightarrow> string \<Rightarrow> string" where
  "resolved_tag ignore_mismatch d t = (if map_of d t \<noteq> None \<or> ignore_mismatch then t else ''O'')"

text \<open>
  The tags that are new to a registry, in first-seen order, each once; and a list
  numbered upwards from a first id.
\<close>

fun first_seen :: "'a list \<Rightarrow> 'a list \<Rightarrow> 'a list" where
  "first_seen known [] = []"
| "first_seen known (t # ts) =
     (if t \<in> set known then first_seen known ts else t # first_seen (t # known) ts)"

fun number_from :: "int \<Rightarrow> 'a list \<Rightarrow> (int \<times> 'a) list" where
  "number_from i [] = []"
| "number_from i (x # xs) = (i, x) # number_from (i + 1) xs"

text \<open>The id a new tag gets by the specification: 0, or one more than the largest id.\<close>

definition next_id :: "(int \<times> string) list \<Rightarrow> int" where
  "next_id m = (if m = [] then 0 else Max (fst ` set m) + 1)"

section \<open>Inputs of the scenarios\<close>

text \<open>The scenario corpus as the specification writes it: two fields on each line.\<close>

definition scenario_text :: string where
  "scenario_text =
     ''Alice B-PER'' @ [newline] @ ''loves O'' @ [newline] @ ''Bob B-PER'' @ [newline] @
     [newline] @ ''No O'' @ [newline]"

text \<open>The same tokens and tags on four-field lines, the tag in the fourth field.\<close>

definition scenario_text4 :: string where
  "scenario_text4 =
     ''Alice NNP B-NP B-PER'' @ [newline] @ ''loves VBZ B-VP O'' @ [newline] @
     ''Bob NNP B-NP B-PER'' @ [newline] @ [newline] @ ''No DT B-NP O'' @ [newline]"

text \<open>One token whose tag is not registered when the registry holds \<open>O\<close> alone.\<close>

definition fallback_text :: string where
  "fallback_text = ''Alice NNP B-NP B-PER'' @ [newline]"

section \<open>Inputs of the splitter scenarios\<close>

text \<open>A random source that always draws 0, five blocks, and a corpus file holding them.\<close>

definition first_draws :: "nat \<Rightarrow> nat" where
  "first_draws i = 0"

definition five_blocks :: "string list" where
  "five_blocks = [''a'', ''b'', ''c'', ''d'', ''e'']"

definition five_block_text :: string where
  "five_block_text = join [newline, newline] five_blocks @ [newline]"

definition small_world :: world where
  "small_world = \<lparr>dirs = [], files = [(''in.conll'', five_block_text)], events = []\<rparr>"

text \<open>What \<^const>\<open>path_join\<close> puts in front of a relative name.\<close>

definition path_prefix :: "string \<Rightarrow> string" where
  "path_prefix a = (if a = [] \<or> last a = CHR ''/'' then a else a @ ''/'')"

text \<open>Two splits of one corpus that meet its two tags in different orders.\<close>

definition train_split_text :: string where
  "train_split_text = ''Alice NNP B-NP B-PER'' @ [newline] @ ''loves VBZ B-VP O'' @ [newline]"

definition test_split_text :: string where
  "test_split_text = ''No DT B-NP O'' @ [newline] @ ''Bob NNP B-NP B-PER'' @ [newline]"

text \<open>The dictionary a conversion starts from when no mapping object is passed.\<close>

definition seed_of :: "(int \<times> string) list option \<Rightarrow> (int \<times> string) list" where
  "seed_of mo = (case mo of None \<Rightarrow> [] | Some m \<Rightarrow> m)"

text \<open>The dictionary a conversion with dynamic registration leaves, from the one it started on.\<close>

definition registered_after :: "(int \<times> string) list \<Rightarrow> string \<Rightarrow> (int \<times> string) list" where
  "registered_after m content =
     m @ number_from (next_id m) (first_seen (map snd m) (corpus_tags (file_lines content)))"

text \<open>A serialiser for the scenarios, and a store of two split files.\<close>

definition plain_dumps :: "sentence \<Rightarrow> string" where
  "plain_dumps r = sid r"

definition split_world :: world where
  "split_world =
     \<lparr>dirs = [''d'', ''d/c''],
      files = [(''d/c/train.conll'', train_split_text), (''d/c/test.conll'', test_split_text)],
      events = []\<rparr>"

section \<open>Invariants of the converter state\<close>

text \<open>No id of the id-to-tag table is above \<open>max_tag_id\<close>.\<close>

definition keys_below :: "conv_state \<Rightarrow> bool" where
  "keys_below s = (\<forall>k \<in> fst ` set (custom_mapping s). k \<le> max_tag_id s)"


text \<open>
  A record stands for a sentence under a tag-to-id table: the same tokens, and each id
  the table's id of the tag that \<open>f\<close> resolves the token's tag to.
\<close>

definition encodes :: "(string \<times> int) list \<Rightarrow> (string \<Rightarrow> string) \<Rightarrow> sentence \<Rightarrow> (string \<times> string) list \<Rightarrow> bool" where
  "encodes d f r seg =
     (tokens r = map fst seg \<and> map Some (ner_tags r) = map (\<lambda>p. map_of d (f (snd p))) seg)"

(*DEFS-END*)

section \<open>The steps of the converter\<close>

lemma process_line_cases:
  "process_line ig s raw =
     (if is_boundary raw then Inr (end_sentence s)
      else (case line_pair raw of None \<Rightarrow> Inr s | Some (tok, t) \<Rightarrow> add_token ig s tok t))"
  by (simp add: process_line_def is_boundary_def line_pair_def Let_def)

lemma map_of_update_alist: "map_of (AList.update k v d) k' = (if k' = k then Some v else map_of d k')"
  by (simp add: update_conv')

lemma counter_get_incr:
  "counter_get (counter_incr c k) k' = (if k' = k then counter_get c k + 1 else counter_get c k')"
  by (simp add: counter_get_def counter_incr_def map_of_update_alist)

lemma add_token_registered:
  assumes "map_of (tag_dict s) t = Some i"
  shows "add_token ig s tok t =
     Inr (s\<lparr>current_sentence :=
             (current_sentence s)\<lparr>tokens := tokens (current_sentence s) @ [tok],
                                  ner_tags := ner_tags (current_sentence s) @ [i]\<rparr>,
            tag_counter := counter_incr (tag_counter s) t\<rparr>)"
  using assms by (simp add: add_token_def dict_get_def Let_def)

lemma add_token_new:
  assumes "map_of (tag_dict s) t = None"
  shows "add_token True s tok t =
     Inr (s\<lparr>current_sentence :=
             (current_sentence s)\<lparr>tokens := tokens (current_sentence s) @ [tok],
                                  ner_tags := ner_tags (current_sentence s) @ [max_tag_id s + 1]\<rparr>,
            max_tag_id := max_tag_id s + 1,
            tag_dict := AList.update t (max_tag_id s + 1) (tag_dict s),
            custom_mapping := AList.update (max_tag_id s + 1) t (custom_mapping s),
            new_entities := insert t (new_entities s),
            tag_counter := counter_incr (tag_counter s) t\<rparr>)"
  using assms by (simp add: add_token_def dict_get_def Let_def map_of_update_alist)

lemma add_token_fallback:
  assumes "map_of (tag_dict s) t = None"
  shows "add_token False s tok t =
     (case map_of (tag_dict s) ''O'' of
        None \<Rightarrow> Inl (KeyError ''O'')
      | Some i \<Rightarrow>
     Inr (s\<lparr>current_sentence :=
             (current_sentence s)\<lparr>tokens := tokens (current_sentence s) @ [tok],
                                  ner_tags := ner_tags (current_sentence s) @ [i]\<rparr>,
            tag_counter := counter_incr (tag_counter s) ''O''\<rparr>))"
  using assms by (simp add: add_token_def dict_get_def Let_def split: option.splits)


lemma end_sentence_registry [simp]:
  "tag_dict (end_sentence s) = tag_dict s"
  "custom_mapping (end_sentence s) = custom_mapping s"
  "max_tag_id (end_sentence s) = max_tag_id s"
  "new_entities (end_sentence s) = new_entities s"
  "tag_counter (end_sentence s) = tag_counter s"
  by (simp_all add: end_sentence_def)

lemma flush_last_registry [simp]:
  "tag_dict (flush_last s) = tag_dict s"
  "custom_mapping (flush_last s) = custom_mapping s"
  "max_tag_id (flush_last s) = max_tag_id s"
  "new_entities (flush_last s) = new_entities s"
  "tag_counter (flush_last s) = tag_counter s"
  by (simp_all add: flush_last_def)

lemma corpus_tags_Nil [simp]: "corpus_tags [] = []"
  by (simp add: corpus_tags_def List.map_filter_simps)

lemma corpus_tags_Cons:
  "corpus_tags (l # ls) = (case line_pair l of None \<Rightarrow> corpus_tags ls | Some p \<Rightarrow> snd p # corpus_tags ls)"
  by (simp add: corpus_tags_def List.map_filter_simps split: option.splits)

lemma line_pair_boundary: "is_boundary l \<Longrightarrow> line_pair l = None"
  by (simp add: line_pair_def)

text \<open>An id, once given, is kept by every later step.\<close>

lemma add_token_keeps_id:
  assumes "add_token ig s tok t = Inr s'" and "map_of (tag_dict s) u = Some i"
  shows "map_of (tag_dict s') u = Some i"
proof (cases "map_of (tag_dict s) t")
  case (Some j)
  with assms show ?thesis by (auto simp: add_token_registered)
next
  case None
  show ?thesis
  proof (cases ig)
    case True
    with None assms show ?thesis by (auto simp: add_token_new map_of_update_alist)
  next
    case False
    with None assms show ?thesis by (auto simp: add_token_fallback split: option.splits)
  qed
qed

lemma process_line_keeps_id:
  assumes "process_line ig s l = Inr s'" and "map_of (tag_dict s) u = Some i"
  shows "map_of (tag_dict s') u = Some i"
  using assms
  by (auto simp: process_line_cases split: if_splits option.splits dest: add_token_keeps_id)

lemma process_lines_keeps_id:
  "process_lines ig s ls = Inr s' \<Longrightarrow> map_of (tag_dict s) u = Some i \<Longrightarrow> map_of (tag_dict s') u = Some i"
proof (induction ls arbitrary: s)
  case Nil
  then show ?case by simp
next
  case (Cons l ls)
  then show ?case
    by (auto split: sum.splits dest: process_line_keeps_id)
qed

text \<open>
  C8: for a tag that is already registered under an id, a line carrying it again is
  converted with that id and leaves the registry (both tables, the largest id and the set
  of new tags) as it was; and whatever lines follow, the tag keeps that id.
\<close>

theorem C8_registered_tag_keeps_id:
  assumes "map_of (tag_dict s) t = Some i"
  shows "(line_pair raw = Some (tok, t) \<longrightarrow>
            (\<exists>s'. process_line ig s raw = Inr s' \<and>
                  tag_dict s' = tag_dict s \<and> custom_mapping s' = custom_mapping s \<and>
                  max_tag_id s' = max_tag_id s \<and> new_entities s' = new_entities s \<and>
                  ner_tags (current_sentence s') = ner_tags (current_sentence s) @ [i])) \<and>
         (\<forall>ls s'. process_lines ig s ls = Inr s' \<longrightarrow> map_of (tag_dict s') t = Some i)"
proof (intro conjI impI allI)
  assume lp: "line_pair raw = Some (tok, t)"
  then have nb: "\<not> is_boundary raw"
    by (auto simp: line_pair_def split: if_splits)
  show "\<exists>s'. process_line ig s raw = Inr s' \<and>
                  tag_dict s' = tag_dict s \<and> custom_mapping s' = custom_mapping s \<and>
                  max_tag_id s' = max_tag_id s \<and> new_entities s' = new_entities s \<and>
                  ner_tags (current_sentence s') = ner_tags (current_sentence s) @ [i]"
    using lp nb assms by (simp add: process_line_cases add_token_registered)
next
  fix ls s'
  assume "process_lines ig s ls = Inr s'"
  then show "map_of (tag_dict s') t = Some i"
    using assms by (rule process_lines_keeps_id)
qed

theorem C8_registered_tag_keeps_id_witness:
  "map_of (tag_dict (init_state [(0, ''O'')])) ''O'' = Some 0 \<and>
   line_pair ''No DT B-NP O'' = Some (''No'', ''O'') \<and>
   (\<exists>s'. process_line False (init_state [(0, ''O'')]) ''No DT B-NP O'' = Inr s' \<and>
         tag_dict s' = tag_dict (init_state [(0, ''O'')]) \<and>
         custom_mapping s' = custom_mapping (init_state [(0, ''O'')]) \<and>
         max_tag_id s' = max_tag_id (init_state [(0, ''O'')]) \<and>
         new_entities s' = new_entities (init_state [(0, ''O'')]) \<and>
         ner_tags (current_sentence s') =
           ner_tags (current_sentence (init_state [(0, ''O'')])) @ [0])"
proof -
  have h: "map_of (tag_dict (init_state [(0, ''O'')])) ''O'' = Some 0"
    by code_simp
  have lp: "line_pair ''No DT B-NP O'' = Some (''No'', ''O'')"
    by code_simp
  from C8_registered_tag_keeps_id [OF h, of "''No DT B-NP O''" "''No''" False] h lp
  show ?thesis
    by blast
qed

section \<open>The ids of new tags\<close>

lemma update_fresh: "map_of d k = None \<Longrightarrow> AList.update k v d = d @ [(k, v)]"
  by (induction d) (auto split: if_splits)

lemma first_seen_set: "set k1 = set k2 \<Longrightarrow> first_seen k1 ts = first_seen k2 ts"
proof (induction ts arbitrary: k1 k2)
  case Nil
  then show ?case by simp
next
  case (Cons t ts)
  have "set (t # k1) = set (t # k2)"
    using Cons.prems by simp
  from Cons.IH [OF this] Cons.IH [OF Cons.prems] Cons.prems show ?case
    by simp
qed

lemma map_of_None_iff: "(map_of d k = None) = (k \<notin> fst ` set d)"
  by (simp add: map_of_eq_None_iff)

lemma keys_below_fresh: "keys_below s \<Longrightarrow> map_of (custom_mapping s) (max_tag_id s + 1) = None"
  by (auto simp: keys_below_def map_of_None_iff)

lemma run_registry:
  "keys_below s \<Longrightarrow>
   \<exists>s'. process_lines True s ls = Inr s' \<and>
     custom_mapping s' =
       custom_mapping s @ number_from (max_tag_id s + 1) (first_seen (map fst (tag_dict s)) (corpus_tags ls)) \<and>
     tag_dict s' =
       tag_dict s @ map (\<lambda>(i, t). (t, i))
         (number_from (max_tag_id s + 1) (first_seen (map fst (tag_dict s)) (corpus_tags ls)))"
proof (induction ls arbitrary: s)
  case Nil
  then show ?case by simp
next
  case (Cons l ls)
  show ?case
  proof (cases "line_pair l")
    case None
    define s1 where "s1 = (if is_boundary l then end_sentence s else s)"
    have step: "process_line True s l = Inr s1"
      using None by (simp add: process_line_cases s1_def)
    have same: "custom_mapping s1 = custom_mapping s" "tag_dict s1 = tag_dict s"
      "max_tag_id s1 = max_tag_id s"
      by (simp_all add: s1_def)
    have "keys_below s1"
      using Cons.prems by (simp add: keys_below_def same)
    from Cons.IH [OF this] show ?thesis
      using step None by (simp add: same corpus_tags_Cons)
  next
    case (Some p)
    obtain tok t where p: "p = (tok, t)" by (cases p)
    have nb: "\<not> is_boundary l"
      using Some by (auto simp: line_pair_def split: if_splits)
    show ?thesis
    proof (cases "map_of (tag_dict s) t")
      case (Some i)
      define s1 where "s1 = s\<lparr>current_sentence :=
             (current_sentence s)\<lparr>tokens := tokens (current_sentence s) @ [tok],
                                  ner_tags := ner_tags (current_sentence s) @ [i]\<rparr>,
            tag_counter := counter_incr (tag_counter s) t\<rparr>"
      have step: "process_line True s l = Inr s1"
        using \<open>line_pair l = Some p\<close> p nb Some
        by (simp add: process_line_cases add_token_registered s1_def)
      have same: "custom_mapping s1 = custom_mapping s" "tag_dict s1 = tag_dict s"
        "max_tag_id s1 = max_tag_id s"
        by (simp_all add: s1_def)
      have "keys_below s1"
        using Cons.prems by (simp add: keys_below_def same)
      have known: "t \<in> set (map fst (tag_dict s))"
        using map_of_SomeD [OF Some] by force
      from Cons.IH [OF \<open>keys_below s1\<close>] show ?thesis
        using step \<open>line_pair l = Some p\<close> p known by (simp add: same corpus_tags_Cons)
    next
      case None
      define s1 where "s1 = s\<lparr>current_sentence :=
             (current_sentence s)\<lparr>tokens := tokens (current_sentence s) @ [tok],
                                  ner_tags := ner_tags (current_sentence s) @ [max_tag_id s + 1]\<rparr>,
            max_tag_id := max_tag_id s + 1,
            tag_dict := AList.update t (max_tag_id s + 1) (tag_dict s),
            custom_mapping := AList.update (max_tag_id s + 1) t (custom_mapping s),
            new_entities := insert t (new_entities s),
            tag_counter := counter_incr (tag_counter s) t\<rparr>"
      have step: "process_line True s l = Inr s1"
        using \<open>line_pair l = Some p\<close> p nb None
        by (simp add: process_line_cases add_token_new s1_def)
      have cm: "custom_mapping s1 = custom_mapping s @ [(max_tag_id s + 1, t)]"
        using keys_below_fresh [OF Cons.prems] by (simp add: s1_def update_fresh)
      have td: "tag_dict s1 = tag_dict s @ [(t, max_tag_id s + 1)]"
        using None by (simp add: s1_def update_fresh)
      have mx: "max_tag_id s1 = max_tag_id s + 1"
        by (simp add: s1_def)
      have kb: "keys_below s1"
        using Cons.prems by (auto simp: keys_below_def cm mx)
      have unknown: "t \<notin> set (map fst (tag_dict s))"
        using None by (simp add: map_of_None_iff)
      have fs: "first_seen (map fst (tag_dict s) @ [t]) (corpus_tags ls) =
                first_seen (t # map fst (tag_dict s)) (corpus_tags ls)"
        by (rule first_seen_set) auto
      from Cons.IH [OF kb] show ?thesis
        using step \<open>line_pair l = Some p\<close> p unknown
        by (simp add: corpus_tags_Cons cm td mx fs)
    qed
  qed
qed

lemma fold_max_ge: "(a::int) \<le> fold max xs a \<and> (\<forall>x \<in> set xs. x \<le> fold max xs a)"
proof (induction xs arbitrary: a)
  case Nil
  then show ?case by simp
next
  case (Cons x xs)
  from Cons [of "max x a"] show ?case by auto
qed

lemma keys_below_init: "keys_below (init_state m)"
proof (cases m)
  case Nil
  then show ?thesis by (simp add: keys_below_def init_state_def)
next
  case (Cons p ps)
  then show ?thesis
    using fold_max_ge [of "fst p" "map fst ps"]
    by (auto simp: keys_below_def init_state_def initial_max_tag_id_def)
qed

lemma next_id_init: "initial_max_tag_id m + 1 = next_id m"
proof (cases m)
  case Nil
  then show ?thesis by (simp add: initial_max_tag_id_def next_id_def)
next
  case (Cons p ps)
  have "Max (set (fst p # map fst ps)) = fold max (map fst ps) (fst p)"
    by (rule Max.set_eq_fold)
  then show ?thesis
    using Cons by (simp add: initial_max_tag_id_def next_id_def)
qed

lemma keys_fold_invert:
  "fst ` set (fold (\<lambda>(k, v) d. AList.update v k d) m d) = snd ` set m \<union> fst ` set d"
proof (induction m arbitrary: d)
  case Nil
  then show ?case by simp
next
  case (Cons p m)
  obtain k v where p: "p = (k, v)" by (cases p)
  have "fst ` set (fold (\<lambda>(k, v) d. AList.update v k d) (p # m) d) =
        snd ` set m \<union> fst ` set (AList.update v k d)"
    by (simp add: p Cons.IH)
  also have "\<dots> = snd ` set m \<union> ({v} \<union> fst ` set d)"
    by (simp only: dom_update)
  also have "\<dots> = snd ` set (p # m) \<union> fst ` set d"
    by (auto simp: p)
  finally show ?case .
qed

lemma keys_invert: "set (map fst (invert m)) = set (map snd m)"
  by (simp add: invert_def keys_fold_invert)

text \<open>
  C7: with dynamic registration enabled, converting a corpus from any seed mapping leaves
  the id-to-tag table as the seed followed by the tags that were new to it, each once and
  in first-seen order, numbered upwards from one more than the largest id of the seed
  (from 0 when the seed is empty); the tag-to-id table gets the same pairs. So every new
  tag gets one more than the largest id in the registry at that moment, and from the
  empty registry N distinct new tags get the ids 0 to N - 1 in first-seen order.
\<close>

theorem C7_new_ids_follow_the_maximum:
  "(\<exists>s. convert True m text = Inr s \<and>
        custom_mapping s =
          m @ number_from (next_id m) (first_seen (map snd m) (corpus_tags (file_lines text))) \<and>
        tag_dict s =
          invert m @ map (\<lambda>(i, t). (t, i))
            (number_from (next_id m) (first_seen (map snd m) (corpus_tags (file_lines text))))) \<and>
   (\<exists>s. convert True [] text = Inr s \<and>
        custom_mapping s = number_from 0 (first_seen [] (corpus_tags (file_lines text))))"
proof -
  have gen: "\<exists>s. convert True m text = Inr s \<and>
        custom_mapping s =
          m @ number_from (next_id m) (first_seen (map snd m) (corpus_tags (file_lines text))) \<and>
        tag_dict s =
          invert m @ map (\<lambda>(i, t). (t, i))
            (number_from (next_id m) (first_seen (map snd m) (corpus_tags (file_lines text))))" for m
  proof -
    have fs: "first_seen (map fst (invert m)) ts = first_seen (map snd m) ts" for ts
      by (rule first_seen_set) (rule keys_invert)
    from run_registry [OF keys_below_init, of m "file_lines text"]
    obtain s' where s': "process_lines True (init_state m) (file_lines text) = Inr s'"
      "custom_mapping s' = custom_mapping (init_state m) @
         number_from (max_tag_id (init_state m) + 1)
           (first_seen (map fst (tag_dict (init_state m))) (corpus_tags (file_lines text)))"
      "tag_dict s' = tag_dict (init_state m) @ map (\<lambda>(i, t). (t, i))
         (number_from (max_tag_id (init_state m) + 1)
           (first_seen (map fst (tag_dict (init_state m))) (corpus_tags (file_lines text))))"
      by blast
    have init: "custom_mapping (init_state m) = m" "tag_dict (init_state m) = invert m"
      "max_tag_id (init_state m) + 1 = next_id m"
      by (simp_all add: init_state_def next_id_init)
    show ?thesis
      using s' by (simp add: convert_def init fs)
  qed
  from gen [of "[]"] have "\<exists>s. convert True [] text = Inr s \<and>
        custom_mapping s = number_from 0 (first_seen [] (corpus_tags (file_lines text)))"
    by (auto simp: next_id_def)
  with gen [of m] show ?thesis
    by (rule conjI)
qed

section \<open>The frequency counter\<close>

lemma resolved_tag_True [simp]: "resolved_tag True d t = t"
  by (simp add: resolved_tag_def)

lemma add_token_resolved:
  assumes "add_token ig s tok t = Inr s'"
  shows "resolved_tag ig (tag_dict s') u = resolved_tag ig (tag_dict s) u"
proof (cases ig)
  case True
  then show ?thesis by simp
next
  case False
  show ?thesis
  proof (cases "map_of (tag_dict s) t")
    case None
    with assms False have "tag_dict s' = tag_dict s"
      by (auto simp: add_token_fallback split: option.splits)
    then show ?thesis by simp
  next
    case (Some i)
    with assms have "tag_dict s' = tag_dict s"
      by (auto simp: add_token_registered)
    then show ?thesis by simp
  qed
qed

lemma add_token_counter:
  assumes "add_token ig s tok t = Inr s'"
  shows "tag_counter s' = counter_incr (tag_counter s) (resolved_tag ig (tag_dict s) t)"
proof (cases "map_of (tag_dict s) t")
  case (Some i)
  with assms show ?thesis
    by (auto simp: add_token_registered resolved_tag_def)
next
  case None
  show ?thesis
  proof (cases ig)
    case True
    with None assms show ?thesis by (auto simp: add_token_new)
  next
    case False
    with None assms show ?thesis
      by (auto simp: add_token_fallback resolved_tag_def split: option.splits)
  qed
qed

lemma process_line_resolved:
  assumes "process_line ig s l = Inr s'"
  shows "resolved_tag ig (tag_dict s') u = resolved_tag ig (tag_dict s) u"
  using assms
  by (auto simp: process_line_cases split: if_splits option.splits dest: add_token_resolved)

lemma process_line_counter:
  assumes "process_line ig s l = Inr s'"
  shows "tag_counter s' =
     (case line_pair l of
        None \<Rightarrow> tag_counter s
      | Some p \<Rightarrow> counter_incr (tag_counter s) (resolved_tag ig (tag_dict s) (snd p)))"
  using assms
  by (auto simp: process_line_cases line_pair_boundary split: if_splits option.splits
      dest: add_token_counter)

lemma counter_positive_incr:
  assumes "\<forall>k n. map_of c k = Some n \<longrightarrow> 0 < n"
  shows "\<forall>k n. map_of (counter_incr c u) k = Some n \<longrightarrow> 0 < n"
  using assms by (auto simp: counter_incr_def map_of_update_alist)

lemma run_counter:
  "process_lines ig s ls = Inr s' \<Longrightarrow>
   counter_get (tag_counter s') u =
     counter_get (tag_counter s) u +
     count_list (map (resolved_tag ig (tag_dict s)) (corpus_tags ls)) u"
proof (induction ls arbitrary: s)
  case Nil
  then show ?case by simp
next
  case (Cons l ls)
  from Cons.prems obtain s1 where s1: "process_line ig s l = Inr s1"
    and rest: "process_lines ig s1 ls = Inr s'"
    by (auto split: sum.splits)
  have same: "resolved_tag ig (tag_dict s1) = resolved_tag ig (tag_dict s)"
    using process_line_resolved [OF s1] by (intro ext)
  note IH = Cons.IH [OF rest]
  show ?case
  proof (cases "line_pair l")
    case None
    with IH process_line_counter [OF s1] show ?thesis
      by (simp add: same corpus_tags_Cons)
  next
    case (Some p)
    with IH process_line_counter [OF s1] show ?thesis
      by (simp add: same corpus_tags_Cons counter_get_incr)
  qed
qed

lemma run_counter_positive:
  "process_lines ig s ls = Inr s' \<Longrightarrow>
   \<forall>k n. map_of (tag_counter s) k = Some n \<longrightarrow> 0 < n \<Longrightarrow>
   \<forall>k n. map_of (tag_counter s') k = Some n \<longrightarrow> 0 < n"
proof (induction ls arbitrary: s)
  case Nil
  then show ?case by simp
next
  case (Cons l ls)
  from Cons.prems(1) obtain s1 where s1: "process_line ig s l = Inr s1"
    and rest: "process_lines ig s1 ls = Inr s'"
    by (auto split: sum.splits)
  have "\<forall>k n. map_of (tag_counter s1) k = Some n \<longrightarrow> 0 < n"
  proof (cases "line_pair l")
    case None
    with process_line_counter [OF s1] Cons.prems(2) show ?thesis by simp
  next
    case (Some p)
    with process_line_counter [OF s1] counter_positive_incr [OF Cons.prems(2)]
    show ?thesis by simp
  qed
  from Cons.IH [OF rest this] show ?case .
qed

text \<open>
  C3, amended: the per-tag frequency counter of the conversion summary is keyed by the
  tag after the fallback substitution. The count reported for a tag is the number of
  tokens whose resolved tag it is, and a tag that no token resolves to has no entry: with
  dynamic registration disabled a token with an unregistered tag is counted under \<open>O\<close>,
  and every other token under its own tag.
\<close>

theorem C3_counter_follows_the_resolved_tag:
  assumes "convert ig m text = Inr s"
  shows "map_of (tag_counter s) u =
     (let n = count_list (map (resolved_tag ig (invert m)) (corpus_tags (file_lines text))) u
      in if n = 0 then None else Some n)"
proof -
  from assms obtain s1 where run: "process_lines ig (init_state m) (file_lines text) = Inr s1"
    and s: "s = flush_last s1"
    by (auto simp: convert_def split: sum.splits)
  have init: "tag_counter (init_state m) = []" "tag_dict (init_state m) = invert m"
    by (simp_all add: init_state_def)
  have cnt: "counter_get (tag_counter s) u =
      count_list (map (resolved_tag ig (invert m)) (corpus_tags (file_lines text))) u"
    using run_counter [OF run, of u] by (simp add: s init counter_get_def)
  have pos: "\<forall>k n. map_of (tag_counter s) k = Some n \<longrightarrow> 0 < n"
    using run_counter_positive [OF run] by (simp add: s init)
  show ?thesis
  proof (cases "map_of (tag_counter s) u")
    case None
    with cnt show ?thesis by (simp add: counter_get_def Let_def)
  next
    case (Some n)
    with pos have "0 < n" by blast
    with Some cnt show ?thesis by (simp add: counter_get_def Let_def)
  qed
qed

text \<open>
  C3, as stated, fails: with \<open>O\<close> registered and dynamic registration disabled, the one
  token of this corpus has the unregistered tag \<open>B-PER\<close>, and the counter ends with the
  single entry \<open>O\<close>: 1, none under \<open>B-PER\<close>.
\<close>

theorem C3_original_tag_counterexample:
  "convert False [(0, ''O'')] fallback_text =
     Inr \<lparr>data = [\<lparr>sid = ''0'', tokens = [''Alice''], ner_tags = [0]\<rparr>],
          current_sentence = \<lparr>sid = ''0'', tokens = [''Alice''], ner_tags = [0]\<rparr>,
          sentence_id = 0, tag_counter = [(''O'', 1)], tag_dict = [(''O'', 0)],
          custom_mapping = [(0, ''O'')], max_tag_id = 0, new_entities = {}\<rparr>"
  by code_simp

theorem C3_counter_follows_the_resolved_tag_witness:
  "convert False [(0, ''O'')] fallback_text =
     Inr \<lparr>data = [\<lparr>sid = ''0'', tokens = [''Alice''], ner_tags = [0]\<rparr>],
          current_sentence = \<lparr>sid = ''0'', tokens = [''Alice''], ner_tags = [0]\<rparr>,
          sentence_id = 0, tag_counter = [(''O'', 1)], tag_dict = [(''O'', 0)],
          custom_mapping = [(0, ''O'')], max_tag_id = 0, new_entities = {}\<rparr> \<and>
   map_of [(''O'', 1::nat)] ''B-PER'' =
     (let n = count_list (map (resolved_tag False (invert [(0, ''O'')]))
                (corpus_tags (file_lines fallback_text))) ''B-PER''
      in if n = 0 then None else Some n)"
proof -
  have h: "convert False [(0, ''O'')] fallback_text =
     Inr \<lparr>data = [\<lparr>sid = ''0'', tokens = [''Alice''], ner_tags = [0]\<rparr>],
          current_sentence = \<lparr>sid = ''0'', tokens = [''Alice''], ner_tags = [0]\<rparr>,
          sentence_id = 0, tag_counter = [(''O'', 1)], tag_dict = [(''O'', 0)],
          custom_mapping = [(0, ''O'')], max_tag_id = 0, new_entities = {}\<rparr>"
    by code_simp
  from C3_counter_follows_the_resolved_tag [OF h, of "''B-PER''"] h show ?thesis
    by simp
qed

section \<open>Decoding the records\<close>


lemma encodes_new_sentence [simp]: "encodes d f (new_sentence n) []"
  by (simp add: encodes_def new_sentence_def)
















section \<open>The groups of the splitter\<close>

lemma length_shuffle_from [simp]: "length (shuffle_from rnd i xs) = length xs"
  by (induction i arbitrary: xs) (simp_all add: Let_def)












section \<open>The effects of the splitter\<close>

lemma makedirs_effect:
  assumes "makedirs w p = (w', r)"
  shows "files w' = files w \<and> events w' = events w @ [Makedirs p]"
  using assms by (auto simp: makedirs_def Let_def split: if_splits)

lemma read_file_effect:
  assumes "read_file w p = (w', r)"
  shows "files w' = files w \<and> dirs w' = dirs w \<and> events w' = events w @ [ReadFile p]"
  using assms by (auto simp: read_file_def Let_def split: option.splits)

lemma write_file_other:
  assumes "write_file w p t = (w', r)" and "q \<noteq> p"
  shows "map_of (files w') q = map_of (files w) q"
  using assms by (auto simp: write_file_def Let_def map_of_update_alist split: if_splits)

lemma write_split_empty [simp]: "write_split w out name [] fc = (w, Inr fc)"
  by (simp add: write_split_def)

lemma write_split_other:
  assumes "write_split w out name sp fc = (w', r)" and "q \<noteq> path_join out name"
  shows "map_of (files w') q = map_of (files w) q"
proof (cases "sp = []")
  case True
  with assms show ?thesis by simp
next
  case False
  obtain w1 r1 where wf: "write_file w (path_join out name) (join [newline, newline] sp @ [newline]) = (w1, r1)"
    by (cases "write_file w (path_join out name) (join [newline, newline] sp @ [newline])")
  with assms(1) False have "w' = w1"
    by (cases r1) (simp_all add: write_split_def)
  with write_file_other [OF wf assms(2)] show ?thesis by simp
qed

lemma write_split_names:
  assumes "write_split w out name sp fc = (w', Inr fc')"
  shows "fst ` set fc' \<subseteq> insert name (fst ` set fc) \<and> (sp = [] \<longrightarrow> fc' = fc)"
proof (cases "sp = []")
  case True
  with assms show ?thesis by auto
next
  case False
  obtain w1 r1 where wf: "write_file w (path_join out name) (join [newline, newline] sp @ [newline]) = (w1, r1)"
    by (cases "write_file w (path_join out name) (join [newline, newline] sp @ [newline])")
  with assms False have "fc' = fc @ [(name, length sp)]"
    by (cases r1) (simp_all add: write_split_def)
  with False show ?thesis by auto
qed

lemma path_join_relative: "\<not> startswith b ''/'' \<Longrightarrow> path_join a b = path_prefix a @ b"
  by (simp add: path_join_def path_prefix_def)

lemma split_paths:
  "path_join out ''train.conll'' = path_prefix out @ ''train.conll''"
  "path_join out ''val.conll'' = path_prefix out @ ''val.conll''"
  "path_join out ''test.conll'' = path_prefix out @ ''test.conll''"
  by (simp_all add: path_join_relative startswith_def)

lemma split_paths_differ:
  "path_join out ''train.conll'' \<noteq> path_join out ''val.conll''"
  "path_join out ''train.conll'' \<noteq> path_join out ''test.conll''"
  "path_join out ''val.conll'' \<noteq> path_join out ''test.conll''"
  by (simp_all add: split_paths)

lemma write_splits_effect:
  assumes "write_splits w out tr va te = (w', res)"
  shows "(tr = [] \<longrightarrow>
            map_of (files w') (path_join out ''train.conll'') =
              map_of (files w) (path_join out ''train.conll'') \<and>
            (\<forall>fc. res = Inr fc \<longrightarrow> ''train.conll'' \<notin> fst ` set fc)) \<and>
         (va = [] \<longrightarrow>
            map_of (files w') (path_join out ''val.conll'') =
              map_of (files w) (path_join out ''val.conll'') \<and>
            (\<forall>fc. res = Inr fc \<longrightarrow> ''val.conll'' \<notin> fst ` set fc)) \<and>
         (te = [] \<longrightarrow>
            map_of (files w') (path_join out ''test.conll'') =
              map_of (files w) (path_join out ''test.conll'') \<and>
            (\<forall>fc. res = Inr fc \<longrightarrow> ''test.conll'' \<notin> fst ` set fc))"
proof -
  obtain w1 r1 where s1: "write_split w out ''train.conll'' tr [] = (w1, r1)"
    by (cases "write_split w out ''train.conll'' tr []")
  note o1 = write_split_other [OF s1]
  show ?thesis
  proof (cases r1)
    case (Inl e)
    with assms s1 have end1: "w' = w1" "res = Inl e"
      by (simp_all add: write_splits_def)
    have "tr = [] \<Longrightarrow> w1 = w"
      using s1 by simp
    with end1 o1 split_paths_differ [of out] show ?thesis
      by (auto simp del: write_split_empty)
  next
    case (Inr fc1)
    note n1 = write_split_names [OF s1 [unfolded Inr]]
    obtain w2 r2 where s2: "write_split w1 out ''val.conll'' va fc1 = (w2, r2)"
      by (cases "write_split w1 out ''val.conll'' va fc1")
    note o2 = write_split_other [OF s2]
    have f1: "tr = [] \<Longrightarrow> files w1 = files w"
      using s1 by simp
    show ?thesis
    proof (cases r2)
      case (Inl e)
      with assms s1 s2 \<open>r1 = Inr fc1\<close> have end2: "w' = w2" "res = Inl e"
        by (simp_all add: write_splits_def)
      have tr_ok: "tr = [] \<Longrightarrow> map_of (files w2) (path_join out ''train.conll'') =
          map_of (files w) (path_join out ''train.conll'')"
        using o2 [of "path_join out ''train.conll''"] f1 split_paths_differ [of out] by simp
      have va_ok: "va = [] \<Longrightarrow> map_of (files w2) (path_join out ''val.conll'') =
          map_of (files w) (path_join out ''val.conll'')"
        using s2 o1 [of "path_join out ''val.conll''"] split_paths_differ [of out] by auto
      have te_ok: "map_of (files w2) (path_join out ''test.conll'') =
          map_of (files w) (path_join out ''test.conll'')"
        using o1 [of "path_join out ''test.conll''"] o2 [of "path_join out ''test.conll''"]
          split_paths_differ [of out] by auto
      from tr_ok va_ok te_ok end2 show ?thesis by simp
    next
      case (Inr fc2)
      note n2 = write_split_names [OF s2 [unfolded Inr]]
      from assms s1 s2 \<open>r1 = Inr fc1\<close> Inr
      have s3: "write_split w2 out ''test.conll'' te fc2 = (w', res)"
        by (simp add: write_splits_def)
      note o3 = write_split_other [OF s3]
      have tr_ok: "tr = [] \<Longrightarrow> map_of (files w') (path_join out ''train.conll'') =
          map_of (files w) (path_join out ''train.conll'')"
        using o2 [of "path_join out ''train.conll''"] o3 [of "path_join out ''train.conll''"]
          f1 split_paths_differ [of out] by simp
      have va_ok: "va = [] \<Longrightarrow> map_of (files w') (path_join out ''val.conll'') =
          map_of (files w) (path_join out ''val.conll'')"
        using s2 o1 [of "path_join out ''val.conll''"] o3 [of "path_join out ''val.conll''"]
          split_paths_differ [of out] by auto
      have te_ok: "te = [] \<Longrightarrow> map_of (files w') (path_join out ''test.conll'') =
          map_of (files w) (path_join out ''test.conll'')"
        using s3 o1 [of "path_join out ''test.conll''"] o2 [of "path_join out ''test.conll''"]
          split_paths_differ [of out] by auto
      have names: "\<And>fc. res = Inr fc \<Longrightarrow>
          (tr = [] \<longrightarrow> ''train.conll'' \<notin> fst ` set fc) \<and>
          (va = [] \<longrightarrow> ''val.conll'' \<notin> fst ` set fc) \<and>
          (te = [] \<longrightarrow> ''test.conll'' \<notin> fst ` set fc)"
      proof -
        fix fc assume "res = Inr fc"
        with s3 have n3: "fst ` set fc \<subseteq> insert ''test.conll'' (fst ` set fc2)"
          "te = [] \<longrightarrow> fc = fc2"
          using write_split_names [of w2 out "''test.conll''" te fc2 w' fc] by simp_all
        from n1 have a1: "fst ` set fc1 \<subseteq> {''train.conll''}" "tr = [] \<longrightarrow> fc1 = []"
          by auto
        from n2 have a2: "fst ` set fc2 \<subseteq> insert ''val.conll'' (fst ` set fc1)"
          "va = [] \<longrightarrow> fc2 = fc1"
          by auto
        have d: "''train.conll'' \<noteq> ''val.conll''" "''train.conll'' \<noteq> ''test.conll''"
          "''val.conll'' \<noteq> ''test.conll''"
          by simp_all
        show "(tr = [] \<longrightarrow> ''train.conll'' \<notin> fst ` set fc) \<and>
          (va = [] \<longrightarrow> ''val.conll'' \<notin> fst ` set fc) \<and>
          (te = [] \<longrightarrow> ''test.conll'' \<notin> fst ` set fc)"
        proof (intro conjI impI)
          assume "tr = []"
          with a1 have "fc1 = []" by simp
          with a2 have "fst ` set fc2 \<subseteq> {''val.conll''}" by auto
          with n3 have "fst ` set fc \<subseteq> {''test.conll'', ''val.conll''}" by auto
          with d show "''train.conll'' \<notin> fst ` set fc" by auto
        next
          assume "va = []"
          with a2 a1 have "fst ` set fc2 \<subseteq> {''train.conll''}" by auto
          with n3 have "fst ` set fc \<subseteq> {''test.conll'', ''train.conll''}" by auto
          with d show "''val.conll'' \<notin> fst ` set fc" by auto
        next
          assume "te = []"
          with n3 have "fc = fc2" by simp
          with a2 a1 have "fst ` set fc \<subseteq> {''val.conll'', ''train.conll''}" by auto
          with d show "''test.conll'' \<notin> fst ` set fc" by auto
        qed
      qed
      from tr_ok va_ok te_ok names show ?thesis by blast
    qed
  qed
qed

lemma split_data_zero:
  "r0 = 0 \<Longrightarrow> fst (split_data (r0, r1, r2) xs) = []"
  "r1 = 0 \<Longrightarrow> fst (snd (split_data (r0, r1, r2) xs)) = []"
  "r2 = 0 \<Longrightarrow> snd (snd (split_data (r0, r1, r2) xs)) = []"
  by (simp_all add: split_data_def Let_def)

lemma add_doc_start_empty [simp]: "add_doc_start d [] = []"
  by (simp add: add_doc_start_def split: option.splits)

text \<open>The body ends before the writes with the files as they were, or it is the writes.\<close>

lemma split_conll_body_cases:
  assumes "split_conll_body rnd w conll_file out (r0, r1, r2) = (w', res)"
  shows "(files w' = files w \<and> (\<exists>e. res = Inl e)) \<or>
         (\<exists>w3 doc xs. files w3 = files w \<and>
            write_splits w3 out
              (add_doc_start doc (fst (split_data (r0, r1, r2) xs)))
              (add_doc_start doc (fst (snd (split_data (r0, r1, r2) xs))))
              (add_doc_start doc (snd (snd (split_data (r0, r1, r2) xs)))) = (w', res))"
proof -
  obtain w1 m where mk: "makedirs w out = (w1, m)"
    by (cases "makedirs w out")
  note f1 = makedirs_effect [OF mk]
  show ?thesis
  proof (cases m)
    case (Inl e)
    with assms mk f1 show ?thesis
      by (auto simp: split_conll_body_def)
  next
    case (Inr u)
    show ?thesis
    proof (cases "r0 + r1 + r2 > 1")
      case True
      with assms mk Inr f1 show ?thesis
        by (auto simp: split_conll_body_def)
    next
      case False
      obtain w2 rd where rf: "read_file w1 conll_file = (w2, rd)"
        by (cases "read_file w1 conll_file")
      note f2 = read_file_effect [OF rf]
      show ?thesis
      proof (cases rd)
        case (Inl e)
        with assms mk \<open>m = Inr u\<close> False rf f1 f2 show ?thesis
          by (auto simp: split_conll_body_def)
      next
        case (Inr content)
        obtain doc blocks where rb: "read_blocks content = (doc, blocks)"
          by (cases "read_blocks content")
        let ?w3 = "w2\<lparr>events := events w2 @ [Shuffle]\<rparr>"
        let ?xs = "shuffle rnd blocks"
        obtain tr va te where sd: "split_data (r0, r1, r2) ?xs = (tr, va, te)"
          by (cases "split_data (r0, r1, r2) ?xs") auto
        from assms mk \<open>m = Inr u\<close> False rf Inr rb sd
        have "write_splits ?w3 out (add_doc_start doc tr) (add_doc_start doc va)
            (add_doc_start doc te) = (w', res)"
          by (simp add: split_conll_body_def Let_def)
        moreover have "files ?w3 = files w"
          using f1 f2 by simp
        ultimately show ?thesis
          using sd by (intro disjI2 exI [of _ ?w3] exI [of _ doc] exI [of _ ?xs]) simp
      qed
    qed
  qed
qed

text \<open>
  C6: a ratio component that is exactly 0 gives its group no block, whatever the blocks
  are; and the splitter then neither writes the file of that group nor enters it in the
  list of the files created: the file system has at that path what it had before.
\<close>

theorem C6_zero_ratio_group_is_empty:
  "(r0 = 0 \<longrightarrow>
      fst (split_data (r0, r1, r2) xs) = [] \<and>
      map_of (files (fst (split_conll rnd w conll_file out (r0, r1, r2)))) (path_join out ''train.conll'') =
        map_of (files w) (path_join out ''train.conll'') \<and>
      (\<forall>fc. snd (split_conll rnd w conll_file out (r0, r1, r2)) = Inr fc \<longrightarrow>
            ''train.conll'' \<notin> fst ` set fc)) \<and>
   (r1 = 0 \<longrightarrow>
      fst (snd (split_data (r0, r1, r2) xs)) = [] \<and>
      map_of (files (fst (split_conll rnd w conll_file out (r0, r1, r2)))) (path_join out ''val.conll'') =
        map_of (files w) (path_join out ''val.conll'') \<and>
      (\<forall>fc. snd (split_conll rnd w conll_file out (r0, r1, r2)) = Inr fc \<longrightarrow>
            ''val.conll'' \<notin> fst ` set fc)) \<and>
   (r2 = 0 \<longrightarrow>
      snd (snd (split_data (r0, r1, r2) xs)) = [] \<and>
      map_of (files (fst (split_conll rnd w conll_file out (r0, r1, r2)))) (path_join out ''test.conll'') =
        map_of (files w) (path_join out ''test.conll'') \<and>
      (\<forall>fc. snd (split_conll rnd w conll_file out (r0, r1, r2)) = Inr fc \<longrightarrow>
            ''test.conll'' \<notin> fst ` set fc))"
proof -
  obtain wb rb where body: "split_conll_body rnd w conll_file out (r0, r1, r2) = (wb, rb)"
    by (cases "split_conll_body rnd w conll_file out (r0, r1, r2)")
  have w': "fst (split_conll rnd w conll_file out (r0, r1, r2)) = wb"
    using body by (cases rb) (simp_all add: split_conll_def)
  have res: "snd (split_conll rnd w conll_file out (r0, r1, r2)) = Inr fc \<longleftrightarrow> rb = Inr fc" for fc
    using body by (cases rb) (simp_all add: split_conll_def)
  from split_conll_body_cases [OF body]
  have main: "(tr0 \<longrightarrow>
            map_of (files wb) (path_join out ''train.conll'') =
              map_of (files w) (path_join out ''train.conll'') \<and>
            (\<forall>fc. rb = Inr fc \<longrightarrow> ''train.conll'' \<notin> fst ` set fc)) \<and>
         (va0 \<longrightarrow>
            map_of (files wb) (path_join out ''val.conll'') =
              map_of (files w) (path_join out ''val.conll'') \<and>
            (\<forall>fc. rb = Inr fc \<longrightarrow> ''val.conll'' \<notin> fst ` set fc)) \<and>
         (te0 \<longrightarrow>
            map_of (files wb) (path_join out ''test.conll'') =
              map_of (files w) (path_join out ''test.conll'') \<and>
            (\<forall>fc. rb = Inr fc \<longrightarrow> ''test.conll'' \<notin> fst ` set fc))"
    if z: "tr0 \<Longrightarrow> r0 = 0" "va0 \<Longrightarrow> r1 = 0" "te0 \<Longrightarrow> r2 = 0" for tr0 va0 te0
  proof
    assume "files wb = files w \<and> (\<exists>e. rb = Inl e)"
    then show ?thesis by auto
  next
    assume "\<exists>w3 doc xs. files w3 = files w \<and>
            write_splits w3 out
              (add_doc_start doc (fst (split_data (r0, r1, r2) xs)))
              (add_doc_start doc (fst (snd (split_data (r0, r1, r2) xs))))
              (add_doc_start doc (snd (snd (split_data (r0, r1, r2) xs)))) = (wb, rb)"
    then obtain w3 doc ys where f3: "files w3 = files w"
      and ws: "write_splits w3 out
              (add_doc_start doc (fst (split_data (r0, r1, r2) ys)))
              (add_doc_start doc (fst (snd (split_data (r0, r1, r2) ys))))
              (add_doc_start doc (snd (snd (split_data (r0, r1, r2) ys)))) = (wb, rb)"
      by blast
    have e: "tr0 \<Longrightarrow> add_doc_start doc (fst (split_data (r0, r1, r2) ys)) = []"
      "va0 \<Longrightarrow> add_doc_start doc (fst (snd (split_data (r0, r1, r2) ys))) = []"
      "te0 \<Longrightarrow> add_doc_start doc (snd (snd (split_data (r0, r1, r2) ys))) = []"
      using z by (simp_all add: split_data_zero)
    from write_splits_effect [OF ws] e show ?thesis
      by (simp add: f3)
  qed
  show ?thesis
    unfolding w' res using main [of "r0 = 0" "r1 = 0" "r2 = 0"]
    by (simp add: split_data_zero)
qed




theorem C6_zero_ratio_group_is_empty_witness:
  "(0::rat) = 0 \<and>
   split_conll first_draws small_world ''in.conll'' ''out'' (1 / 2, 1 / 2, 0) =
     (\<lparr>dirs = [''out''],
       files = [(''in.conll'', five_block_text),
                (''out/train.conll'', ''b'' @ [newline, newline] @ ''c'' @ [newline]),
                (''out/val.conll'', ''d'' @ [newline, newline] @ ''e'' @ [newline])],
       events = [Makedirs ''out'', ReadFile ''in.conll'', Shuffle,
                 WriteFile ''out/train.conll'', WriteFile ''out/val.conll'']\<rparr>,
      Inr [(''train.conll'', 2), (''val.conll'', 2)]) \<and>
   snd (snd (split_data (1 / 2, 1 / 2, 0) five_blocks)) = [] \<and>
   map_of (files (fst (split_conll first_draws small_world ''in.conll'' ''out'' (1 / 2, 1 / 2, 0))))
     (path_join ''out'' ''test.conll'') =
     map_of (files small_world) (path_join ''out'' ''test.conll'') \<and>
   ''test.conll'' \<notin> fst ` set [(''train.conll'', 2::nat), (''val.conll'', 2)]"
proof -
  have run: "split_conll first_draws small_world ''in.conll'' ''out'' (1 / 2, 1 / 2, 0) =
     (\<lparr>dirs = [''out''],
       files = [(''in.conll'', five_block_text),
                (''out/train.conll'', ''b'' @ [newline, newline] @ ''c'' @ [newline]),
                (''out/val.conll'', ''d'' @ [newline, newline] @ ''e'' @ [newline])],
       events = [Makedirs ''out'', ReadFile ''in.conll'', Shuffle,
                 WriteFile ''out/train.conll'', WriteFile ''out/val.conll'']\<rparr>,
      Inr [(''train.conll'', 2), (''val.conll'', 2)])"
    by code_simp
  from C6_zero_ratio_group_is_empty
    [of "1 / 2" "1 / 2" 0 five_blocks first_draws small_world "''in.conll''" "''out''"]
  have "snd (snd (split_data (1 / 2, 1 / 2, 0) five_blocks)) = [] \<and>
   map_of (files (fst (split_conll first_draws small_world ''in.conll'' ''out'' (1 / 2, 1 / 2, 0))))
     (path_join ''out'' ''test.conll'') =
     map_of (files small_world) (path_join ''out'' ''test.conll'') \<and>
   (\<forall>fc. snd (split_conll first_draws small_world ''in.conll'' ''out'' (1 / 2, 1 / 2, 0)) = Inr fc \<longrightarrow>
         ''test.conll'' \<notin> fst ` set fc)"
    by blast
  with run show ?thesis
    by simp
qed

section \<open>The mapping object across conversions\<close>

lemma convert_registry:
  "\<exists>s. convert True m content = Inr s \<and> custom_mapping s = registered_after m content"
proof -
  have fs: "first_seen (map fst (invert m)) ts = first_seen (map snd m) ts" for ts
    by (rule first_seen_set) (rule keys_invert)
  from run_registry [OF keys_below_init, of m "file_lines content"]
  obtain s' where s': "process_lines True (init_state m) (file_lines content) = Inr s'"
    and cm: "custom_mapping s' = custom_mapping (init_state m) @
         number_from (max_tag_id (init_state m) + 1)
           (first_seen (map fst (tag_dict (init_state m))) (corpus_tags (file_lines content)))"
    by blast
  have init: "custom_mapping (init_state m) = m" "tag_dict (init_state m) = invert m"
    "max_tag_id (init_state m) + 1 = next_id m"
    by (simp_all add: init_state_def next_id_init)
  from s' cm show ?thesis
    by (simp add: convert_def init fs registered_after_def)
qed

lemma write_file_heap:
  "snd (fst (case write_file w p t of (w2, Inl e) \<Rightarrow> ((w2, h), Inl e) | (w2, Inr u) \<Rightarrow> ((w2, h), f w2 u))) = h"
  by (cases "write_file w p t") (auto split: sum.splits)

lemma conll_to_json_heap:
  "snd (fst (conll_to_json jd cfg (w, h) inp outp cls ref True)) =
     (case mapping_in_use cfg h ref of
        Inl e \<Rightarrow> h
      | Inr (h1, a) \<Rightarrow>
          (case map_of (files w) inp of
             None \<Rightarrow> h1
           | Some content \<Rightarrow> h1[a := registered_after (h1 ! a) content]))"
proof (cases "mapping_in_use cfg h ref")
  case (Inl e)
  then show ?thesis by (simp add: conll_to_json_def)
next
  case (Inr p)
  obtain h1 a where p: "p = (h1, a)" by (cases p)
  show ?thesis
  proof (cases "map_of (files w) inp")
    case None
    with Inr p show ?thesis
      by (simp add: conll_to_json_def read_file_def Let_def)
  next
    case (Some content)
    from convert_registry [of "h1 ! a" content] obtain s
      where s: "convert True (h1 ! a) content = Inr s"
        and cm: "custom_mapping s = registered_after (h1 ! a) content"
      by blast
    let ?w1 = "w\<lparr>events := events w @ [ReadFile inp]\<rparr>"
    let ?h2 = "h1[a := custom_mapping s]"
    have "conll_to_json jd cfg (w, h) inp outp cls ref True =
      (case write_file ?w1 outp (concat (map (\<lambda>item. jd item @ [newline]) (data s))) of
         (w2, Inl e) \<Rightarrow> ((w2, ?h2), Inl e)
       | (w2, Inr u) \<Rightarrow>
           (case write_file w2 cls (class_mapping_text (custom_mapping s)) of
              (w3, Inl e) \<Rightarrow> ((w3, ?h2), Inl e)
            | (w3, Inr u) \<Rightarrow>
                ((w3, ?h2),
                 Inr \<lparr>sentences_processed = length (data s),
                      unique_tags = length (custom_mapping s),
                      tag_counts = tag_counter s,
                      new_entity_list = new_entities s\<rparr>)))"
      using Inr p Some s by (simp add: conll_to_json_def read_file_def Let_def)
    then have "snd (fst (conll_to_json jd cfg (w, h) inp outp cls ref True)) = ?h2"
      by (auto split: prod.splits sum.splits)
    with Inr p Some cm show ?thesis by simp
  qed
qed

lemma conll_to_json_heap_shared:
  "snd (fst (conll_to_json jd cfg (w, h) inp outp cls (Some a) True)) =
     (case map_of (files w) inp of
        None \<Rightarrow> h
      | Some content \<Rightarrow> h[a := registered_after (h ! a) content])"
  by (simp add: conll_to_json_heap mapping_in_use_def)

lemma conll_to_json_heap_fresh:
  "snd (fst (conll_to_json jd cfg (w, h) inp outp cls None True)) =
     (case cfg of
        Inl e \<Rightarrow> h
      | Inr mo \<Rightarrow>
          h @ [case map_of (files w) inp of
                 None \<Rightarrow> seed_of mo
               | Some content \<Rightarrow> registered_after (seed_of mo) content])"
proof (cases cfg)
  case (Inl e)
  then show ?thesis by (simp add: conll_to_json_heap mapping_in_use_def)
next
  case (Inr mo)
  then show ?thesis
    by (cases mo; cases "map_of (files w) inp")
      (simp_all add: conll_to_json_heap mapping_in_use_def seed_of_def)
qed

lemma convert_splits_shared:
  "a < length h \<Longrightarrow>
   length (snd (fst (convert_splits jd cfg (w, h) od cd (Some a) splits js))) = length h \<and>
   (\<exists>xs. snd (fst (convert_splits jd cfg (w, h) od cd (Some a) splits js)) ! a = h ! a @ xs) \<and>
   (\<forall>b. b \<noteq> a \<longrightarrow> snd (fst (convert_splits jd cfg (w, h) od cd (Some a) splits js)) ! b = h ! b)"
proof (induction splits arbitrary: w h js)
  case Nil
  then show ?case by simp
next
  case (Cons sp splits)
  obtain name n where sp: "sp = (name, n)" by (cases sp)
  let ?call = "conll_to_json jd cfg (w, h) (path_join cd name)
      (path_join od (str_replace ''.conll'' ''.json'' name)) (path_join od ''class_mapping.py'')
      (Some a) True"
  obtain w1 h1 res where call: "?call = ((w1, h1), res)"
    by (cases ?call) auto
  have "h1 = snd (fst ?call)" by (simp add: call)
  then have h1: "h1 = (case map_of (files w) (path_join cd name) of
        None \<Rightarrow> h
      | Some content \<Rightarrow> h[a := registered_after (h ! a) content])"
    by (simp only: conll_to_json_heap_shared)
  have len: "length h1 = length h"
    by (simp add: h1 split: option.splits)
  have grow: "\<exists>ys. h1 ! a = h ! a @ ys"
    using Cons.prems by (auto simp: h1 registered_after_def split: option.splits)
  have other: "\<forall>b. b \<noteq> a \<longrightarrow> h1 ! b = h ! b"
    by (simp add: h1 split: option.splits)
  show ?case
  proof (cases res)
    case (Inl e)
    with call sp len grow other show ?thesis by simp
  next
    case (Inr r)
    from Cons.prems len have "a < length h1" by simp
    from Cons.IH [OF this, of w1 "AList.update name r js"] call sp Inr len grow other
    show ?thesis by auto
  qed
qed

lemma convert_splits_fresh:
  "take (length h) (snd (fst (convert_splits jd cfg (w, h) od cd None splits js))) = h"
proof (induction splits arbitrary: w h js)
  case Nil
  then show ?case by simp
next
  case (Cons sp splits)
  obtain name n where sp: "sp = (name, n)" by (cases sp)
  let ?call = "conll_to_json jd cfg (w, h) (path_join cd name)
      (path_join od (str_replace ''.conll'' ''.json'' name)) (path_join od ''class_mapping.py'')
      None True"
  obtain w1 h1 res where call: "?call = ((w1, h1), res)"
    by (cases ?call) auto
  have "h1 = snd (fst ?call)" by (simp add: call)
  then have "\<exists>ys. h1 = h @ ys"
    by (auto simp only: conll_to_json_heap_fresh split: sum.splits)
  then obtain ys where h1: "h1 = h @ ys" by blast
  show ?case
  proof (cases res)
    case (Inl e)
    with call sp h1 show ?thesis by simp
  next
    case (Inr r)
    from Cons.IH [of h1 w1 "AList.update name r js"]
    have "take (length h1) (snd (fst (convert_splits jd cfg (w1, h1) od cd None splits
        (AList.update name r js)))) = h1" .
    then have "take (length h) (snd (fst (convert_splits jd cfg (w1, h1) od cd None splits
        (AList.update name r js)))) = take (length h) h1"
      by (metis h1 append_eq_conv_conj length_append take_take min.absorb1 le_add1)
    with call sp Inr h1 show ?thesis by simp
  qed
qed

text \<open>
  C10: a conversion that is given a mapping object registers into that object, which
  afterwards holds what it held, followed by the tags that were new to it, in first-seen
  order and numbered from one more than its largest id; every other object of the store
  is as it was. So the splits of a request, converted one after the other with the one
  object, only ever add to it, and a tag keeps the id it got in an earlier split. A
  conversion that is given no mapping object makes a new dictionary from the latest model
  configuration, or an empty one, and registers into that: the objects that existed are
  untouched, however many splits are converted, and no split sees the ids of another.
\<close>

theorem C10_mapping_object_shared_or_fresh:
  "(a < length h \<longrightarrow>
      snd (fst (conll_to_json jd cfg (w, h) inp outp cls (Some a) True)) =
        (case map_of (files w) inp of
           None \<Rightarrow> h
         | Some content \<Rightarrow> h[a := registered_after (h ! a) content]) \<and>
      length (snd (fst (convert_splits jd cfg (w, h) od cd (Some a) splits js))) = length h \<and>
      (\<exists>xs. snd (fst (convert_splits jd cfg (w, h) od cd (Some a) splits js)) ! a = h ! a @ xs) \<and>
      (\<forall>b. b \<noteq> a \<longrightarrow> snd (fst (convert_splits jd cfg (w, h) od cd (Some a) splits js)) ! b = h ! b)) \<and>
   snd (fst (conll_to_json jd cfg (w, h) inp outp cls None True)) =
     (case cfg of
        Inl e \<Rightarrow> h
      | Inr mo \<Rightarrow>
          h @ [case map_of (files w) inp of
                 None \<Rightarrow> seed_of mo
               | Some content \<Rightarrow> registered_after (seed_of mo) content]) \<and>
   take (length h) (snd (fst (convert_splits jd cfg (w, h) od cd None splits js))) = h"
  using convert_splits_shared [of a h jd cfg w od cd splits js]
    conll_to_json_heap_shared [of jd cfg w h inp outp cls a]
    conll_to_json_heap_fresh [of jd cfg w h inp outp cls]
    convert_splits_fresh [of h jd cfg w od cd splits js]
  by blast

theorem C10_mapping_object_shared_or_fresh_witness:
  "(0::nat) < length [[(0::int, ''O'')]] \<and>
   snd (fst (conll_to_json plain_dumps (Inr None) (split_world, [[(0, ''O'')]])
      ''d/c/train.conll'' ''d/train.json'' ''d/class_mapping.py'' (Some 0) True)) =
     [[(0, ''O''), (1, ''B-PER'')]] \<and>
   snd (fst (convert_splits plain_dumps (Inr None) (split_world, [[(0, ''O'')]]) ''d'' ''d/c'' (Some 0)
      [(''train.conll'', 1), (''test.conll'', 1)] [])) = [[(0, ''O''), (1, ''B-PER'')]] \<and>
   snd (fst (conll_to_json plain_dumps (Inr None) (split_world, [[(0, ''O'')]])
      ''d/c/train.conll'' ''d/train.json'' ''d/class_mapping.py'' None True)) =
     [[(0, ''O'')], [(0, ''B-PER''), (1, ''O'')]] \<and>
   snd (fst (convert_splits plain_dumps (Inr None) (split_world, [[(0, ''O'')]]) ''d'' ''d/c'' None
      [(''train.conll'', 1), (''test.conll'', 1)] [])) =
     [[(0, ''O'')], [(0, ''B-PER''), (1, ''O'')], [(0, ''O''), (1, ''B-PER'')]] \<and>
   take (length [[(0::int, ''O'')]])
     [[(0::int, ''O'')], [(0, ''B-PER''), (1, ''O'')], [(0, ''O''), (1, ''B-PER'')]] = [[(0, ''O'')]]"
proof -
  have l: "(0::nat) < length [[(0::int, ''O'')]]"
    by simp
  have e1: "snd (fst (conll_to_json plain_dumps (Inr None) (split_world, [[(0, ''O'')]])
      ''d/c/train.conll'' ''d/train.json'' ''d/class_mapping.py'' (Some 0) True)) =
     [[(0, ''O''), (1, ''B-PER'')]]"
    by code_simp
  have e2: "snd (fst (convert_splits plain_dumps (Inr None) (split_world, [[(0, ''O'')]]) ''d'' ''d/c'' (Some 0)
      [(''train.conll'', 1), (''test.conll'', 1)] [])) = [[(0, ''O''), (1, ''B-PER'')]]"
    by code_simp
  have e3: "snd (fst (conll_to_json plain_dumps (Inr None) (split_world, [[(0, ''O'')]])
      ''d/c/train.conll'' ''d/train.json'' ''d/class_mapping.py'' None True)) =
     [[(0, ''O'')], [(0, ''B-PER''), (1, ''O'')]]"
    by code_simp
  have e4: "snd (fst (convert_splits plain_dumps (Inr None) (split_world, [[(0, ''O'')]]) ''d'' ''d/c'' None
      [(''train.conll'', 1), (''test.conll'', 1)] [])) =
     [[(0, ''O'')], [(0, ''B-PER''), (1, ''O'')], [(0, ''O''), (1, ''B-PER'')]]"
    by code_simp
  from C10_mapping_object_shared_or_fresh [of 0 "[[(0, ''O'')]]" plain_dumps "Inr None" split_world
      "''d/c/train.conll''" "''d/train.json''" "''d/class_mapping.py''" "''d''" "''d/c''"
      "[(''train.conll'', 1), (''test.conll'', 1)]" "[]"]
  have "take (length [[(0::int, ''O'')]])
      (snd (fst (convert_splits plain_dumps (Inr None) (split_world, [[(0, ''O'')]]) ''d'' ''d/c'' None
        [(''train.conll'', 1), (''test.conll'', 1)] []))) = [[(0, ''O'')]]"
    by blast
  then have "take (length [[(0::int, ''O'')]])
     [[(0::int, ''O'')], [(0, ''B-PER''), (1, ''O'')], [(0, ''O''), (1, ''B-PER'')]] = [[(0, ''O'')]]"
    by (simp only: e4)
  with l e1 e2 e3 e4 show ?thesis
    by (intro conjI)
qed

section \<open>The scenario of the converter\<close>

text \<open>
  C2, as stated, fails: every line of the scenario corpus has two fields, fewer than the
  four the converter asks for, so each line is skipped; no sentence is produced, no tag is
  registered and no tag is newly discovered.
\<close>

theorem C2_two_field_scenario_counterexample:
  "convert True [] scenario_text =
     Inr \<lparr>data = [],
          current_sentence = \<lparr>sid = ''0'', tokens = [], ner_tags = []\<rparr>,
          sentence_id = 0, tag_counter = [], tag_dict = [], custom_mapping = [],
          max_tag_id = - 1, new_entities = {}\<rparr>"
  by code_simp

text \<open>
  C2, amended: with the tag in the fourth field of each line, converting the corpus with
  no pre-seeded mapping and dynamic registration enabled yields exactly two sentences; the
  ids are assigned in first-seen order, \<open>B-PER\<close> = 0 and \<open>O\<close> = 1; sentence 0 has the tag
  ids 0, 1, 0 and sentence 1 has the tag id 1; the newly discovered tags are \<open>B-PER\<close> and
  \<open>O\<close>.
\<close>

theorem C2_four_field_scenario:
  "convert True [] scenario_text4 =
     Inr \<lparr>data = [\<lparr>sid = ''0'', tokens = [''Alice'', ''loves'', ''Bob''], ner_tags = [0, 1, 0]\<rparr>,
                  \<lparr>sid = ''1'', tokens = [''No''], ner_tags = [1]\<rparr>],
          current_sentence = \<lparr>sid = ''1'', tokens = [''No''], ner_tags = [1]\<rparr>,
          sentence_id = 1, tag_counter = [(''B-PER'', 2), (''O'', 2)],
          tag_dict = [(''B-PER'', 0), (''O'', 1)],
          custom_mapping = [(0, ''B-PER''), (1, ''O'')], max_tag_id = 1,
          new_entities = {''B-PER'', ''O''}\<rparr>"
  by code_simp

end
